theory Spec2Isabelle
  imports Main "HOL-Library.AList" "HOL-Library.Char_ord" "HOL-Library.List_Lexorder"
begin

section \<open>The Ajv facade: a shallow embedding\<close>

text \<open>
  The orchestrator class \<^verbatim>\<open>Ajv\<close> of the repository, operation by operation. JavaScript
  objects used as dictionaries are association lists in insertion order (their own
  properties; what an object inherits is modelled where the code reads a name that a
  caller chooses, in the keyword registry), objects with an identity live in
  a store indexed by addresses, a \<^verbatim>\<open>throw\<close> is the left injection of a sum, and the
  logger is a list of the entries written so far. The state that a call leaves when it
  throws is not modelled.
\<close>

subsection \<open>JavaScript values\<close>

text \<open>An argument or field that may be undefined or null.\<close>

datatype 'a nullable = Undefined | Null | Val 'a

text \<open>
  Schemas, data and option values are JavaScript values built from JSON: the model has the
  undefined value next to null, since data handed to a validator can carry it. Numbers
  are integers here; floating point is not modelled. An object is the list of its own
  properties in insertion order.
\<close>

datatype json =
    JUndefined
  | JNull
  | JBool bool
  | JNum int
  | JStr string
  | JArr "json list"
  | JObj "(string \<times> json) list"

text \<open>What \<^verbatim>\<open>if (v)\<close>, \<^verbatim>\<open>!v\<close> and \<^verbatim>\<open>a || b\<close> test.\<close>

fun js_truthy :: "json \<Rightarrow> bool" where
  "js_truthy JUndefined = False"
| "js_truthy JNull = False"
| "js_truthy (JBool b) = b"
| "js_truthy (JNum n) = (n \<noteq> 0)"
| "js_truthy (JStr s) = (s \<noteq> [])"
| "js_truthy (JArr xs) = True"
| "js_truthy (JObj kvs) = True"

definition js_or :: "json \<Rightarrow> json \<Rightarrow> json" where
  "js_or a b = (if js_truthy a then a else b)"

subsection \<open>Errors and the logger\<close>

text \<open>
  Every \<^verbatim>\<open>throw\<close> of the facade is a constructor. \<open>TypeError\<close> is the runtime's error
  for a property read on null or undefined, \<open>Thrown\<close> is an error raised by code outside
  the facade (the compiler, the resolver, a user callback).
\<close>

datatype error =
    SchemaIdMustBeString
  | SchemaMustBeObjectOrBoolean
  | DuplicateSchema string
  | MetaSchemaMustBeString
  | SchemaInvalid string
  | ImplementationError
  | InvalidRemoveParameter
  | InvalidAddKeywordsParameters
  | KeywordAlreadyDefined string
  | KeywordInvalidName string
  | UnknownType string
  | DataKeywordNeedsCode
  | TypeError
  | Thrown string

datatype log_entry = LogWarn string | LogError string

text \<open>Sequencing of calls that may throw: the first error ends the run.\<close>

definition bindE :: "error + 'a \<Rightarrow> ('a \<Rightarrow> error + 'b) \<Rightarrow> error + 'b" where
  "bindE m f = (case m of Inl e \<Rightarrow> Inl e | Inr x \<Rightarrow> f x)"

text \<open>A \<^verbatim>\<open>for ... of\<close> loop whose body may throw, over the state \<open>s\<close>.\<close>

fun forE :: "('a \<Rightarrow> 's \<Rightarrow> error + 's) \<Rightarrow> 'a list \<Rightarrow> 's \<Rightarrow> error + 's" where
  "forE f [] s = Inr s"
| "forE f (x # xs) s = (case f x s of Inl e \<Rightarrow> Inl e | Inr s' \<Rightarrow> forE f xs s')"

text \<open>
  \<^verbatim>\<open>eachItem(xs, f)\<close> of \<^verbatim>\<open>./compile/util\<close> visits the elements of an array, or the
  value itself when it is not an array. The model lists the values visited.
\<close>

datatype 'a one_or_many = One 'a | Many "'a list"

fun eachItem :: "'a one_or_many \<Rightarrow> 'a list" where
  "eachItem (One x) = [x]"
| "eachItem (Many xs) = xs"

subsection \<open>Stable serialisation\<close>

text \<open>
  Modelled from the spec: the default \<^verbatim>\<open>serialize\<close>, which the enum validator calls as
  well, is \<^verbatim>\<open>stableStringify\<close> of the package \<^verbatim>\<open>fast-json-stable-stringify\<close>, not among
  the files. The spec says that it sorts object keys recursively before serialising. The
  serialisation is that of \<^verbatim>\<open>JSON.stringify\<close>: undefined has no text, an undefined
  element of an array is written \<^verbatim>\<open>null\<close>, a property whose value is undefined is left
  out. Keys are sorted in the order of their character codes.
\<close>

fun show_nat :: "nat \<Rightarrow> string" where
  "show_nat n = (if n < 10 then [''0123456789'' ! n] else show_nat (n div 10) @ [''0123456789'' ! (n mod 10)])"

definition show_int :: "int \<Rightarrow> string" where
  "show_int i = (if i < 0 then CHR ''-'' # show_nat (nat (- i)) else show_nat (nat i))"

text \<open>\<^verbatim>\<open>JSON.stringify\<close> of a string: quoted, with its escapes.\<close>

definition hex_digit :: "nat \<Rightarrow> char" where
  "hex_digit d = ''0123456789abcdef'' ! d"

definition escape_char :: "char \<Rightarrow> string" where
  "escape_char ch =
     (if ch = CHR 0x22 then [CHR 0x5C, CHR 0x22]
      else if ch = CHR 0x5C then [CHR 0x5C, CHR 0x5C]
      else if ch = CHR 0x08 then [CHR 0x5C, CHR ''b'']
      else if ch = CHR 0x0C then [CHR 0x5C, CHR ''f'']
      else if ch = CHR 0x0A then [CHR 0x5C, CHR ''n'']
      else if ch = CHR 0x0D then [CHR 0x5C, CHR ''r'']
      else if ch = CHR 0x09 then [CHR 0x5C, CHR ''t'']
      else if (of_char ch :: nat) < 32
      then [CHR 0x5C, CHR ''u'', CHR ''0'', CHR ''0'',
            hex_digit (of_char ch div 16), hex_digit (of_char ch mod 16)]
      else [ch])"

definition json_quote :: "string \<Rightarrow> string" where
  "json_quote s = CHR 0x22 # concat (map escape_char s) @ [CHR 0x22]"

fun join_comma :: "string list \<Rightarrow> string" where
  "join_comma [] = []"
| "join_comma [x] = x"
| "join_comma (x # y # ys) = x @ CHR '','' # join_comma (y # ys)"

function stableStringify :: "json \<Rightarrow> string option" where
  "stableStringify JUndefined = None"
| "stableStringify JNull = Some ''null''"
| "stableStringify (JBool b) = Some (if b then ''true'' else ''false'')"
| "stableStringify (JNum n) = Some (show_int n)"
| "stableStringify (JStr s) = Some (json_quote s)"
| "stableStringify (JArr xs) =
     Some (''['' @ join_comma (map (\<lambda>x. case stableStringify x of None \<Rightarrow> ''null'' | Some t \<Rightarrow> t) xs) @ '']'')"
| "stableStringify (JObj kvs) =
     Some (''{'' @
       join_comma (concat (map (\<lambda>k.
         case map_of kvs k of
           None \<Rightarrow> []
         | Some v \<Rightarrow> (case stableStringify v of None \<Rightarrow> [] | Some t \<Rightarrow> [json_quote k @ '':'' @ t]))
         (sort (map fst kvs)))) @ ''}'')"
  by pat_completeness auto
termination
proof (relation "measure size")
  show "wf (measure size)" by simp
next
  fix xs :: "json list" and x
  assume "x \<in> set xs"
  then have "size x < Suc (size_list size xs)"
    by (induction xs) auto
  then show "(x, JArr xs) \<in> measure size" by simp
next
  fix kvs :: "(string \<times> json) list" and k v
  assume "map_of kvs k = Some v"
  then have "(k, v) \<in> set kvs" by (rule map_of_SomeD)
  then have "size v < Suc (size_list (size_prod (\<lambda>_. 0) size) kvs)"
    by (induction kvs) auto
  then show "(v, JObj kvs) \<in> measure size" by simp
qed

subsection \<open>Values that JSON carries\<close>

text \<open>
  \<^verbatim>\<open>JSON.parse(JSON.stringify(v))\<close>: a fresh copy of \<open>v\<close> without what JSON cannot carry. A
  property whose value is undefined is dropped, an undefined element of an array becomes
  null, and undefined itself has no text, so that parsing throws.
\<close>

function json_clone :: "json \<Rightarrow> json option" where
  "json_clone JUndefined = None"
| "json_clone JNull = Some JNull"
| "json_clone (JBool b) = Some (JBool b)"
| "json_clone (JNum n) = Some (JNum n)"
| "json_clone (JStr s) = Some (JStr s)"
| "json_clone (JArr xs) =
     Some (JArr (map (\<lambda>x. case json_clone x of None \<Rightarrow> JNull | Some y \<Rightarrow> y) xs))"
| "json_clone (JObj kvs) =
     Some (JObj (concat (map (\<lambda>kv. case json_clone (snd kv) of
                                        None \<Rightarrow> []
                                      | Some w \<Rightarrow> [(fst kv, w)]) kvs)))"
  by pat_completeness auto
termination
proof (relation "measure size")
  show "wf (measure size)" by simp
next
  fix xs :: "json list" and x
  assume "x \<in> set xs"
  then have "size x < Suc (size_list size xs)"
    by (induction xs) auto
  then show "(x, JArr xs) \<in> measure size" by simp
next
  fix kvs :: "(string \<times> json) list" and kv
  assume "kv \<in> set kvs"
  then have "size (snd kv) < Suc (size_list (size_prod (\<lambda>_. 0) size) kvs)"
  proof (induction kvs)
    case Nil
    then show ?case by simp
  next
    case (Cons p kvs)
    show ?case
    proof (cases "kv = p")
      case True
      then show ?thesis by (cases p) simp
    next
      case False
      with Cons have "size (snd kv) < Suc (size_list (size_prod (\<lambda>_. 0) size) kvs)" by simp
      then show ?thesis by simp
    qed
  qed
  then show "(snd kv, JObj kvs) \<in> measure size" by simp
qed





subsection \<open>errorsText\<close>

text \<open>
  \<^verbatim>\<open>ErrorObject\<close>: the two fields \<^verbatim>\<open>errorsText\<close> reads, and the keyword and schema path.
  \<^verbatim>\<open>message\<close> is optional (it is left out when messages are switched off); a template
  literal prints an undefined value as the text \<^verbatim>\<open>undefined\<close>.
\<close>

record ErrorObject =
  keyword :: string
  dataPath :: string
  schemaPath :: string
  message :: "string option"

record ErrorsTextOptions =
  separator :: "string option"
  dataVar :: "string option"

definition template_string :: "string option \<Rightarrow> string" where
  "template_string v = (case v of None \<Rightarrow> ''undefined'' | Some s \<Rightarrow> s)"

text \<open>The arrow function of the \<^verbatim>\<open>map\<close> call: \<^verbatim>\<open>`${dataVar}${e.dataPath} ${e.message}`\<close>.\<close>

definition error_line :: "string \<Rightarrow> ErrorObject \<Rightarrow> string" where
  "error_line dv e = dv @ dataPath e @ '' '' @ template_string (message e)"

text \<open>
  \<^verbatim>\<open>Array.prototype.reduce\<close> without an initial value: the first element is the first
  accumulator and the callback runs from the second element on. On an empty array it
  throws a TypeError, which \<^verbatim>\<open>errorsText\<close> never reaches.
\<close>

fun reduce1 :: "('a \<Rightarrow> 'a \<Rightarrow> 'a) \<Rightarrow> 'a list \<Rightarrow> 'a option" where
  "reduce1 f [] = None"
| "reduce1 f (x # xs) = Some (foldl f x xs)"

text \<open>
  \<^verbatim>\<open>errorsText(errors = this.errors, {separator = ", ", dataVar = "data"} = {})\<close>. A default
  applies to an argument that is undefined, not to one that is null. The first argument
  of the model is the field \<^verbatim>\<open>this.errors\<close>.
\<close>

definition errorsText ::
  "ErrorObject list nullable \<Rightarrow> ErrorObject list nullable \<Rightarrow> ErrorsTextOptions \<Rightarrow> string" where
  "errorsText this_errors errors_arg topts =
     (let errs = (case errors_arg of Undefined \<Rightarrow> this_errors | _ \<Rightarrow> errors_arg);
          sep = (case separator topts of None \<Rightarrow> '', '' | Some s \<Rightarrow> s);
          dv = (case dataVar topts of None \<Rightarrow> ''data'' | Some s \<Rightarrow> s)
      in case errs of
           Val es \<Rightarrow>
             (case reduce1 (\<lambda>text msg. text @ msg @ sep) (map (error_line dv) es) of
                None \<Rightarrow> ''No errors''
              | Some text \<Rightarrow> text)
         | _ \<Rightarrow> ''No errors'')"

subsection \<open>Options, schema environments and the state of an instance\<close>

text \<open>
  The options the facade reads. An option holds a JavaScript value (\<^verbatim>\<open>validateSchema\<close> is
  true, false or \<^verbatim>\<open>"log"\<close>; \<^verbatim>\<open>meta\<close> is false or a schema); an option that is not set is
  \<open>JUndefined\<close>.
\<close>

record InstanceOptions =
  opt_validateSchema :: json
  opt_addUsedSchema :: json
  opt_data :: json
  opt_meta :: json
  opt_defaultMeta :: json
  opt_removeAdditional :: json
  opt_useDefaults :: json
  opt_coerceTypes :: json

text \<open>
  A \<^verbatim>\<open>SchemaEnv\<close>. It is an object with an identity: the tables of the instance hold its
  address in the store. A compiled validator is a function object, named by a number.
\<close>

record SchemaEnv =
  schema :: json
  cacheKey :: string
  baseId :: string
  localRefs :: "(string \<times> json) list"
  meta :: "bool option"
  validate :: "nat option"

text \<open>
  An entry of \<^verbatim>\<open>schemas\<close> or \<^verbatim>\<open>refs\<close>: an environment, or (in \<^verbatim>\<open>refs\<close>) a string that
  names another key.
\<close>

datatype entry = Env nat | Alias string

fun entry_truthy :: "entry \<Rightarrow> bool" where
  "entry_truthy (Env a) = True"
| "entry_truthy (Alias s) = (s \<noteq> [])"

text \<open>The rule registry (its operations come below).\<close>

record KeywordDefinition =
  def_keyword :: "string one_or_many"
  def_type :: "string one_or_many option"
  def_data :: bool
  def_code :: bool
  def_validate :: bool
  def_before :: "string option"
  def_implements :: "string list option"
  def_metaSchema :: "json option"
  def_validateSchema :: "nat option"

record Rule =
  rule_keyword :: string
  rule_definition :: KeywordDefinition

record RuleGroup =
  group_type :: "string option"
  group_rules :: "Rule list"

text \<open>An entry of \<^verbatim>\<open>RULES.all\<close> is a rule or the value true.\<close>

datatype rule_entry = IsRule Rule | IsTrue

record ValidationRules =
  RULES_rules :: "RuleGroup list"
  RULES_all :: "(string \<times> rule_entry) list"
  RULES_keywords :: "(string \<times> bool) list"

text \<open>
  The instance. \<open>cache\<close> is the default \<^verbatim>\<open>Cache\<close>, \<open>store\<close> holds the environments
  created so far (an address is a position in it), \<open>logger\<close> the entries logged so far.
\<close>

record Ajv =
  opts :: InstanceOptions
  metaOpts :: InstanceOptions
  errors :: "ErrorObject list nullable"
  schemas :: "(string \<times> entry) list"
  refs :: "(string \<times> entry) list"
  RULES :: ValidationRules
  cache :: "(string \<times> nat) list"
  store :: "SchemaEnv list"
  logger :: "log_entry list"

definition env_at :: "Ajv \<Rightarrow> nat \<Rightarrow> SchemaEnv option" where
  "env_at ajv a = (if a < length (store ajv) then Some (store ajv ! a) else None)"

definition warn :: "string \<Rightarrow> Ajv \<Rightarrow> Ajv" where
  "warn msg ajv = ajv\<lparr>logger := logger ajv @ [LogWarn msg]\<rparr>"

definition log_error :: "string \<Rightarrow> Ajv \<Rightarrow> Ajv" where
  "log_error msg ajv = ajv\<lparr>logger := logger ajv @ [LogError msg]\<rparr>"

text \<open>
  The code that the facade calls and that is not among the files of the repository here,
  taken as parameters: the serialisation of a schema into its cache key (\<^verbatim>\<open>opts.serialize\<close>),
  \<^verbatim>\<open>normalizeId\<close> and \<^verbatim>\<open>getSchemaRefs\<close> of \<^verbatim>\<open>./compile/resolve\<close>, the base id the
  constructor of \<^verbatim>\<open>SchemaEnv\<close> computes, \<^verbatim>\<open>compileSchema\<close> of \<^verbatim>\<open>./compile\<close> (it stores
  the validator it builds in the environment), \<^verbatim>\<open>checkType\<close>, and the two entries into
  compiled code and the resolver that \<^verbatim>\<open>validateSchema\<close> goes through: \<^verbatim>\<open>this.validate\<close>
  and \<^verbatim>\<open>this.getSchema\<close>. Each may throw, and each may change the instance.
\<close>

record collab =
  serialize :: "json \<Rightarrow> string"
  normalizeId :: "string option \<Rightarrow> string"
  getSchemaRefs :: "Ajv \<Rightarrow> json \<Rightarrow> error + (string \<times> json) list"
  baseId_of :: "json \<Rightarrow> string"
  compileSchema :: "Ajv \<Rightarrow> nat \<Rightarrow> error + Ajv"
  run_validate :: "Ajv \<Rightarrow> json \<Rightarrow> json \<Rightarrow> error + bool \<times> Ajv"
  run_getSchema :: "Ajv \<Rightarrow> string \<Rightarrow> error + bool \<times> Ajv"
  checkType :: "string \<Rightarrow> ValidationRules \<Rightarrow> bool"

subsection \<open>Property reads\<close>

text \<open>
  \<^verbatim>\<open>v[k]\<close>: a read on null or undefined throws; an object gives its own property or
  undefined; an array gives the element when \<open>k\<close> is the decimal text of one of its
  positions. The properties that values inherit, and the length of an array or string,
  are not modelled: they read as undefined.
\<close>

definition array_index :: "string \<Rightarrow> nat \<Rightarrow> nat option" where
  "array_index k n = find (\<lambda>i. show_nat i = k) [0..<n]"

fun get_prop :: "json \<Rightarrow> string \<Rightarrow> error + json" where
  "get_prop JUndefined k = Inl TypeError"
| "get_prop JNull k = Inl TypeError"
| "get_prop (JObj kvs) k = Inr (case map_of kvs k of None \<Rightarrow> JUndefined | Some v \<Rightarrow> v)"
| "get_prop (JArr xs) k =
     Inr (case array_index k (length xs) of None \<Rightarrow> JUndefined | Some i \<Rightarrow> xs ! i)"
| "get_prop v k = Inr JUndefined"

text \<open>\<^verbatim>\<open>typeof v == "object"\<close>: objects, arrays and null.\<close>

fun typeof_object :: "json \<Rightarrow> bool" where
  "typeof_object JNull = True"
| "typeof_object (JArr xs) = True"
| "typeof_object (JObj kvs) = True"
| "typeof_object v = False"

fun typeof_boolean :: "json \<Rightarrow> bool" where
  "typeof_boolean (JBool b) = True"
| "typeof_boolean v = False"

subsection \<open>The schema cache\<close>

text \<open>
  Modelled from the spec: the class \<^verbatim>\<open>Cache\<close> of \<^verbatim>\<open>./cache\<close> is not among the files. The
  spec calls it a content-addressed store from the serialised schema to the compiled
  environment; the facade uses its four operations.
\<close>

definition cache_get :: "Ajv \<Rightarrow> string \<Rightarrow> nat option" where
  "cache_get ajv k = map_of (cache ajv) k"

definition cache_put :: "string \<Rightarrow> nat \<Rightarrow> Ajv \<Rightarrow> Ajv" where
  "cache_put k a ajv = ajv\<lparr>cache := AList.update k a (cache ajv)\<rparr>"

definition cache_del :: "string \<Rightarrow> Ajv \<Rightarrow> Ajv" where
  "cache_del k ajv = ajv\<lparr>cache := AList.delete k (cache ajv)\<rparr>"

definition cache_clear :: "Ajv \<Rightarrow> Ajv" where
  "cache_clear ajv = ajv\<lparr>cache := []\<rparr>"

subsection \<open>Registering schemas\<close>

definition table_truthy :: "(string \<times> entry) list \<Rightarrow> string \<Rightarrow> bool" where
  "table_truthy tbl k = (case map_of tbl k of None \<Rightarrow> False | Some e \<Rightarrow> entry_truthy e)"

text \<open>\<^verbatim>\<open>_checkUnique(id)\<close>: throws when \<^verbatim>\<open>this.schemas[id] || this.refs[id]\<close> is truthy.\<close>

definition private_checkUnique :: "Ajv \<Rightarrow> string \<Rightarrow> error + unit" where
  "private_checkUnique ajv i =
     (if table_truthy (schemas ajv) i \<or> table_truthy (refs ajv) i
      then Inl (DuplicateSchema i) else Inr ())"

definition META_SCHEMA_ID :: string where
  "META_SCHEMA_ID = ''http://json-schema.org/draft-07/schema''"

fun is_string :: "json \<Rightarrow> bool" where
  "is_string (JStr s) = True"
| "is_string v = False"

text \<open>
  \<^verbatim>\<open>defaultMeta\<close>: stores its answer in \<^verbatim>\<open>opts.defaultMeta\<close>. \<open>run_getSchema\<close> tells
  whether \<^verbatim>\<open>this.getSchema(META_SCHEMA_ID)\<close> found a validator.
\<close>

definition defaultMeta :: "collab \<Rightarrow> Ajv \<Rightarrow> error + json \<times> Ajv" where
  "defaultMeta c ajv =
     (let m = opt_meta (opts ajv) in
      if typeof_object m then
        bindE (get_prop m ''$id'') (\<lambda>i.
          let v = js_or i m in Inr (v, ajv\<lparr>opts := (opts ajv)\<lparr>opt_defaultMeta := v\<rparr>\<rparr>))
      else
        bindE (run_getSchema c ajv META_SCHEMA_ID) (\<lambda>(found, ajv1).
          let v = (if found then JStr META_SCHEMA_ID else JUndefined)
          in Inr (v, ajv1\<lparr>opts := (opts ajv1)\<lparr>opt_defaultMeta := v\<rparr>\<rparr>)))"

text \<open>The expression \<^verbatim>\<open>$schema || this.opts.defaultMeta || defaultMeta.call(this)\<close>.\<close>

definition meta_schema_ref :: "collab \<Rightarrow> json \<Rightarrow> Ajv \<Rightarrow> error + json \<times> Ajv" where
  "meta_schema_ref c s1 ajv =
     (if js_truthy s1 then Inr (s1, ajv)
      else if js_truthy (opt_defaultMeta (opts ajv)) then Inr (opt_defaultMeta (opts ajv), ajv)
      else defaultMeta c ajv)"

text \<open>
  The end of \<^verbatim>\<open>validateSchema\<close>: an invalid schema is thrown, or logged when the option
  \<^verbatim>\<open>validateSchema\<close> is \<^verbatim>\<open>"log"\<close>, if \<^verbatim>\<open>throwOrLogError\<close> is set; then \<^verbatim>\<open>valid\<close> is
  returned.
\<close>

definition validateSchema_report :: "bool \<Rightarrow> bool \<Rightarrow> Ajv \<Rightarrow> error + bool \<times> Ajv" where
  "validateSchema_report valid throwOrLogError ajv =
     (if \<not> valid \<and> throwOrLogError then
        (let msg = ''schema is invalid: '' @
               errorsText (errors ajv) Undefined \<lparr>separator = None, dataVar = None\<rparr>
         in if opt_validateSchema (opts ajv) = JStr ''log''
            then Inr (valid, log_error msg ajv)
            else Inl (SchemaInvalid msg))
      else Inr (valid, ajv))"

text \<open>
  \<^verbatim>\<open>validateSchema(schema, throwOrLogError)\<close>. \<open>run_validate\<close> is
  \<^verbatim>\<open>this.validate($schema, schema)\<close>; its answer is read for truthiness only.
\<close>

definition validateSchema :: "collab \<Rightarrow> json \<Rightarrow> bool \<Rightarrow> Ajv \<Rightarrow> error + bool \<times> Ajv" where
  "validateSchema c sch throwOrLogError ajv =
     (if typeof_boolean sch then Inr (True, ajv)
      else
        bindE (get_prop sch ''$schema'') (\<lambda>s1.
          if s1 \<noteq> JUndefined \<and> \<not> is_string s1 then Inl MetaSchemaMustBeString
          else
            bindE (meta_schema_ref c s1 ajv) (\<lambda>(s2, ajv1).
              if \<not> js_truthy s2
              then Inr (True, (warn ''meta-schema not available'' ajv1)\<lparr>errors := Null\<rparr>)
              else
                bindE (run_validate c ajv1 s2 sch) (\<lambda>(valid, ajv2).
                  validateSchema_report valid throwOrLogError ajv2))))"

definition starts_with_hash :: "string \<Rightarrow> bool" where
  "starts_with_hash s = (case s of [] \<Rightarrow> False | ch # _ \<Rightarrow> ch = CHR ''#'')"

text \<open>
  The registration of a new environment \<open>a\<close> with base id \<open>i\<close> in \<^verbatim>\<open>refs\<close>, inside
  \<^verbatim>\<open>_addSchema\<close>: \<^verbatim>\<open>if (addSchema && !id.startsWith("#")) { if (id) this._checkUnique(id);
  this.refs[id] = sch }\<close>.
\<close>

definition register_ref :: "json \<Rightarrow> nat \<Rightarrow> string \<Rightarrow> Ajv \<Rightarrow> error + Ajv" where
  "register_ref add a i ajv =
     (if js_truthy add \<and> \<not> starts_with_hash i then
        bindE (if i \<noteq> [] then private_checkUnique ajv i else Inr ()) (\<lambda>_.
          Inr (ajv\<lparr>refs := AList.update i (Env a) (refs ajv)\<rparr>))
      else Inr ajv)"

text \<open>The meta-schema validation at the end of \<^verbatim>\<open>_addSchema\<close>: \<^verbatim>\<open>if (validateSchema)
  this.validateSchema(schema, true)\<close>.\<close>

definition validate_added :: "collab \<Rightarrow> json \<Rightarrow> json \<Rightarrow> Ajv \<Rightarrow> error + Ajv" where
  "validate_added c vs sch ajv =
     (if js_truthy vs
      then bindE (validateSchema c sch True ajv) (\<lambda>(_, ajv1). Inr ajv1)
      else Inr ajv)"

text \<open>
  \<^verbatim>\<open>_addSchema(schema, meta, validateSchema = this.opts.validateSchema,
  addSchema = this.opts.addUsedSchema)\<close>: returns the environment (its address). A cached
  environment is returned as it is; a new one is stored, put in the cache, registered in
  \<^verbatim>\<open>refs\<close> under its base id and then validated against its meta-schema.
\<close>

definition private_addSchema ::
  "collab \<Rightarrow> json \<Rightarrow> bool option \<Rightarrow> json \<Rightarrow> json \<Rightarrow> Ajv \<Rightarrow> error + nat \<times> Ajv" where
  "private_addSchema c sch m vs_arg add_arg ajv =
     (let vs = (if vs_arg = JUndefined then opt_validateSchema (opts ajv) else vs_arg);
          add = (if add_arg = JUndefined then opt_addUsedSchema (opts ajv) else add_arg)
      in
      if \<not> typeof_object sch \<and> \<not> typeof_boolean sch then Inl SchemaMustBeObjectOrBoolean
      else
        let ck = serialize c sch in
        case cache_get ajv ck of
          Some a \<Rightarrow> Inr (a, ajv)
        | None \<Rightarrow>
            bindE (getSchemaRefs c ajv sch) (\<lambda>lr.
              let a = length (store ajv);
                  env = \<lparr>schema = sch, cacheKey = ck, baseId = baseId_of c sch,
                         localRefs = lr, meta = m, validate = None\<rparr>;
                  ajv1 = cache_put (cacheKey env) a (ajv\<lparr>store := store ajv @ [env]\<rparr>)
              in
              bindE (register_ref add a (baseId env) ajv1) (\<lambda>ajv2.
                bindE (validate_added c vs sch ajv2) (\<lambda>ajv3.
                  Inr (a, ajv3)))))"

text \<open>\<^verbatim>\<open>key || id\<close> on two optional strings.\<close>

definition key_or_id :: "string option \<Rightarrow> string option \<Rightarrow> string option" where
  "key_or_id k i = (case k of Some s \<Rightarrow> if s \<noteq> [] then Some s else i | None \<Rightarrow> i)"

text \<open>The \<^verbatim>\<open>$id\<close> that \<^verbatim>\<open>addSchema\<close> reads: of an object only, and it must be a string.\<close>

definition schema_id :: "json \<Rightarrow> error + string option" where
  "schema_id sch =
     (if typeof_object sch then
        bindE (get_prop sch ''$id'') (\<lambda>i.
          case i of
            JUndefined \<Rightarrow> Inr None
          | JStr s \<Rightarrow> Inr (Some s)
          | _ \<Rightarrow> Inl SchemaIdMustBeString)
      else Inr None)"

fun is_array :: "json \<Rightarrow> bool" where
  "is_array (JArr xs) = True"
| "is_array v = False"

text \<open>The body of \<^verbatim>\<open>addSchema\<close> for a schema that is not an array.\<close>

definition addSchema_single ::
  "collab \<Rightarrow> json \<Rightarrow> string option \<Rightarrow> bool option \<Rightarrow> json \<Rightarrow> Ajv \<Rightarrow> error + Ajv" where
  "addSchema_single c sch k m vs ajv =
     bindE (schema_id sch) (\<lambda>i.
       let k1 = normalizeId c (key_or_id k i) in
       bindE (private_checkUnique ajv k1) (\<lambda>_.
         bindE (private_addSchema c sch m vs (JBool True) ajv) (\<lambda>(a, ajv1).
           Inr (ajv1\<lparr>schemas := AList.update k1 (Env a) (schemas ajv1)\<rparr>))))"

text \<open>
  \<^verbatim>\<open>addSchema(schema, key, _meta, _validateSchema = this.opts.validateSchema)\<close>: an array
  is added element by element, without a key.
\<close>

fun addSchema ::
    "collab \<Rightarrow> json \<Rightarrow> string option \<Rightarrow> bool option \<Rightarrow> json \<Rightarrow> Ajv \<Rightarrow> error + Ajv"
  and addSchema_array ::
    "collab \<Rightarrow> json list \<Rightarrow> bool option \<Rightarrow> json \<Rightarrow> Ajv \<Rightarrow> error + Ajv" where
  "addSchema c (JArr xs) k m vs ajv =
     addSchema_array c xs m (if vs = JUndefined then opt_validateSchema (opts ajv) else vs) ajv"
| "addSchema c sch k m vs ajv =
     addSchema_single c sch k m (if vs = JUndefined then opt_validateSchema (opts ajv) else vs) ajv"
| "addSchema_array c [] m vs ajv = Inr ajv"
| "addSchema_array c (x # xs) m vs ajv =
     (case addSchema c x None m vs ajv of
        Inl e \<Rightarrow> Inl e
      | Inr ajv1 \<Rightarrow> addSchema_array c xs m vs ajv1)"

subsection \<open>Compiling\<close>

text \<open>
  \<^verbatim>\<open>_compileMetaSchema\<close>: \<^verbatim>\<open>this.opts\<close> is \<^verbatim>\<open>this._metaOpts\<close> while the compiler runs
  and the former options afterwards.
\<close>

definition private_compileMetaSchema :: "collab \<Rightarrow> nat \<Rightarrow> Ajv \<Rightarrow> error + Ajv" where
  "private_compileMetaSchema c a ajv =
     (let currentOpts = opts ajv in
      bindE (compileSchema c (ajv\<lparr>opts := metaOpts ajv\<rparr>) a) (\<lambda>ajv1.
        Inr (ajv1\<lparr>metaOpts := opts ajv1, opts := currentOpts\<rparr>)))"

text \<open>
  \<^verbatim>\<open>_compileSchemaEnv(sch)\<close>: returns the validator the compiler stored in the
  environment. An address outside the store does not occur in a run; the model
  answers it with the implementation error.
\<close>

definition private_compileSchemaEnv :: "collab \<Rightarrow> nat \<Rightarrow> Ajv \<Rightarrow> error + nat \<times> Ajv" where
  "private_compileSchemaEnv c a ajv =
     (case env_at ajv a of
        None \<Rightarrow> Inl ImplementationError
      | Some env \<Rightarrow>
          bindE (if meta env = Some True then private_compileMetaSchema c a ajv
                 else compileSchema c ajv a) (\<lambda>ajv1.
            case env_at ajv1 a of
              None \<Rightarrow> Inl ImplementationError
            | Some env1 \<Rightarrow>
                (case validate env1 of
                   None \<Rightarrow> Inl ImplementationError
                 | Some v \<Rightarrow> Inr (v, ajv1))))"

text \<open>\<^verbatim>\<open>compile(schema, _meta)\<close>: \<^verbatim>\<open>sch.validate || this._compileSchemaEnv(sch)\<close>.\<close>

definition compile :: "collab \<Rightarrow> json \<Rightarrow> bool option \<Rightarrow> Ajv \<Rightarrow> error + nat \<times> Ajv" where
  "compile c sch m ajv =
     bindE (private_addSchema c sch m JUndefined JUndefined ajv) (\<lambda>(a, ajv1).
       case env_at ajv1 a of
         None \<Rightarrow> Inl ImplementationError
       | Some env \<Rightarrow>
           (case validate env of
              Some v \<Rightarrow> Inr (v, ajv1)
            | None \<Rightarrow> private_compileSchemaEnv c a ajv1))"

text \<open>
  What the properties of the cache ask of the absent code: the compiler, the validator
  run and the resolver may add lines to the cache, and remove none.
\<close>

definition keeps_cache :: "Ajv \<Rightarrow> Ajv \<Rightarrow> bool" where
  "keeps_cache ajv ajv' = (\<forall>k a. cache_get ajv k = Some a \<longrightarrow> cache_get ajv' k = Some a)"

definition collab_keeps_cache :: "collab \<Rightarrow> bool" where
  "collab_keeps_cache c =
     ((\<forall>ajv a ajv'. compileSchema c ajv a = Inr ajv' \<longrightarrow> keeps_cache ajv ajv') \<and>
      (\<forall>ajv s d r ajv'. run_validate c ajv s d = Inr (r, ajv') \<longrightarrow> keeps_cache ajv ajv') \<and>
      (\<forall>ajv k r ajv'. run_getSchema c ajv k = Inr (r, ajv') \<longrightarrow> keeps_cache ajv ajv'))"

subsection \<open>Removing schemas\<close>

text \<open>The table that \<^verbatim>\<open>_removeAllSchemas\<close> is handed: \<^verbatim>\<open>this.schemas\<close> or \<^verbatim>\<open>this.refs\<close>.\<close>

datatype table = Schemas | Refs

fun get_table :: "table \<Rightarrow> Ajv \<Rightarrow> (string \<times> entry) list" where
  "get_table Schemas ajv = schemas ajv"
| "get_table Refs ajv = refs ajv"

fun set_table :: "table \<Rightarrow> (string \<times> entry) list \<Rightarrow> Ajv \<Rightarrow> Ajv" where
  "set_table Schemas tbl ajv = ajv\<lparr>schemas := tbl\<rparr>"
| "set_table Refs tbl ajv = ajv\<lparr>refs := tbl\<rparr>"

text \<open>
  A regular expression object, as far as \<^verbatim>\<open>test\<close> uses it. \<open>re_exec s i\<close> is the search
  for the pattern in \<open>s\<close> from the position \<open>i\<close>: the position where the match that it
  finds ends, if it finds one (a sticky expression looks at \<open>i\<close> only). \<open>re_stateful\<close>
  says that the expression carries the flag \<^verbatim>\<open>g\<close> or \<^verbatim>\<open>y\<close>, and \<open>lastIndex\<close> is the
  property of that name.
\<close>

record RegExp =
  re_exec :: "string \<Rightarrow> nat \<Rightarrow> nat option"
  re_stateful :: bool
  lastIndex :: nat

text \<open>
  \<^verbatim>\<open>regex.test(s)\<close>, which changes the expression. With the flag \<^verbatim>\<open>g\<close> or \<^verbatim>\<open>y\<close> the
  search starts at \<^verbatim>\<open>lastIndex\<close>, and \<^verbatim>\<open>lastIndex\<close> becomes the end of the match, or 0
  when there is none; without them the search starts at 0 and \<^verbatim>\<open>lastIndex\<close> is left
  alone.
\<close>

definition regex_test :: "RegExp \<Rightarrow> string \<Rightarrow> bool \<times> RegExp" where
  "regex_test regex s =
     (if re_stateful regex then
        (if lastIndex regex > length s then (False, regex\<lparr>lastIndex := 0\<rparr>)
         else (case re_exec regex s (lastIndex regex) of
                 None \<Rightarrow> (False, regex\<lparr>lastIndex := 0\<rparr>)
               | Some e \<Rightarrow> (True, regex\<lparr>lastIndex := e\<rparr>)))
      else (re_exec regex s 0 \<noteq> None, regex))"

text \<open>
  The key matches the pattern: there is no expression, or the pattern is found in the
  key. An expression keeps no position when it has neither of the two flags.
\<close>

definition pattern_matches :: "RegExp option \<Rightarrow> string \<Rightarrow> bool" where
  "pattern_matches regex keyRef =
     (case regex of None \<Rightarrow> True | Some r \<Rightarrow> re_exec r keyRef 0 \<noteq> None)"

definition keeps_no_position :: "RegExp option \<Rightarrow> bool" where
  "keeps_no_position regex = (case regex of None \<Rightarrow> True | Some r \<Rightarrow> \<not> re_stateful r)"

text \<open>
  The inner statement of the loop of \<^verbatim>\<open>_removeAllSchemas\<close>: the entry \<open>sch\<close> at the key
  \<open>keyRef\<close> is deleted when it is a string, or an environment that is not a meta-schema,
  whose cache line is deleted too.
\<close>

definition remove_entry :: "table \<Rightarrow> string \<Rightarrow> entry \<Rightarrow> Ajv \<Rightarrow> Ajv" where
  "remove_entry t keyRef sch ajv =
     (case sch of
        Alias s \<Rightarrow> set_table t (AList.delete keyRef (get_table t ajv)) ajv
      | Env a \<Rightarrow>
          (case env_at ajv a of
             None \<Rightarrow> ajv
           | Some env \<Rightarrow>
               if meta env \<noteq> Some True then
                 (let ajv1 = cache_del (cacheKey env) ajv
                  in set_table t (AList.delete keyRef (get_table t ajv1)) ajv1)
               else ajv))"

text \<open>
  One round of the loop of \<^verbatim>\<open>_removeAllSchemas\<close>, at the key \<open>keyRef\<close>, on the expression
  and the instance: \<^verbatim>\<open>schemas[keyRef]\<close> is read, then \<^verbatim>\<open>!regex || regex.test(keyRef)\<close>
  decides. A key that is no longer in the table is not visited.
\<close>

definition removeAll_step :: "table \<Rightarrow> string \<Rightarrow> RegExp option \<times> Ajv \<Rightarrow> RegExp option \<times> Ajv" where
  "removeAll_step t keyRef st =
     (case map_of (get_table t (snd st)) keyRef of
        None \<Rightarrow> st
      | Some sch \<Rightarrow>
          (case fst st of
             None \<Rightarrow> (None, remove_entry t keyRef sch (snd st))
           | Some regex \<Rightarrow>
               (let (m, regex1) = regex_test regex keyRef
                in (Some regex1, if m then remove_entry t keyRef sch (snd st) else snd st))))"

text \<open>
  \<^verbatim>\<open>_removeAllSchemas(schemas, regex)\<close>: the loop over the keys of the table, in the order
  of the table. It returns the expression as the calls of \<^verbatim>\<open>test\<close> have left it, and the
  instance.
\<close>

definition private_removeAllSchemas ::
  "table \<Rightarrow> RegExp option \<Rightarrow> Ajv \<Rightarrow> RegExp option \<times> Ajv" where
  "private_removeAllSchemas t regex ajv =
     fold (removeAll_step t) (map fst (get_table t ajv)) (regex, ajv)"

definition getSchEnv :: "collab \<Rightarrow> Ajv \<Rightarrow> string \<Rightarrow> entry option" where
  "getSchEnv c ajv keyRef =
     (let k = normalizeId c (Some keyRef) in
      if table_truthy (schemas ajv) k then map_of (schemas ajv) k else map_of (refs ajv) k)"

text \<open>
  The two passes that both bulk removals make: over \<^verbatim>\<open>schemas\<close>, then over \<^verbatim>\<open>refs\<close>, with
  the same expression object.
\<close>

definition bulk_removed :: "RegExp option \<Rightarrow> Ajv \<Rightarrow> Ajv" where
  "bulk_removed regex ajv =
     (let (regex1, ajv1) = private_removeAllSchemas Schemas regex ajv
      in snd (private_removeAllSchemas Refs regex1 ajv1))"

datatype remove_arg = ByRegExp RegExp | ByValue json

text \<open>The two bulk removals: no argument, or a regular expression.\<close>

definition bulk_arg :: "RegExp option \<Rightarrow> remove_arg" where
  "bulk_arg regex = (case regex of None \<Rightarrow> ByValue JUndefined | Some r \<Rightarrow> ByRegExp r)"

text \<open>
  \<^verbatim>\<open>removeSchema(schemaKeyRef)\<close>: a regular expression, undefined, a string, an object;
  anything else is an invalid parameter.
\<close>

fun removeSchema :: "collab \<Rightarrow> remove_arg \<Rightarrow> Ajv \<Rightarrow> error + Ajv" where
  "removeSchema c (ByRegExp r) ajv =
     (let (r1, ajv1) = private_removeAllSchemas Schemas (Some r) ajv;
          (r2, ajv2) = private_removeAllSchemas Refs r1 ajv1
      in Inr ajv2)"
| "removeSchema c (ByValue JUndefined) ajv =
     (let (r1, ajv1) = private_removeAllSchemas Schemas None ajv;
          (r2, ajv2) = private_removeAllSchemas Refs None ajv1
      in Inr (cache_clear ajv2))"
| "removeSchema c (ByValue (JStr k)) ajv =
     (let ajv1 = (case getSchEnv c ajv k of
                    Some (Env a) \<Rightarrow>
                      (case env_at ajv a of
                         Some env \<Rightarrow> cache_del (cacheKey env) ajv
                       | None \<Rightarrow> ajv)
                  | _ \<Rightarrow> ajv)
      in Inr (ajv1\<lparr>schemas := AList.delete k (schemas ajv1), refs := AList.delete k (refs ajv1)\<rparr>))"
| "removeSchema c (ByValue (JBool b)) ajv = Inl InvalidRemoveParameter"
| "removeSchema c (ByValue (JNum n)) ajv = Inl InvalidRemoveParameter"
| "removeSchema c (ByValue v) ajv =
     (let ajv1 = cache_del (serialize c v) ajv in
      bindE (get_prop v ''$id'') (\<lambda>i.
        if js_truthy i then
          (case i of
             JStr s \<Rightarrow>
               (let k = normalizeId c (Some s)
                in Inr (ajv1\<lparr>schemas := AList.delete k (schemas ajv1),
                              refs := AList.delete k (refs ajv1)\<rparr>))
           | _ \<Rightarrow> Inl TypeError)
        else Inr ajv1))"

subsection \<open>The rule registry\<close>

text \<open>
  \<^verbatim>\<open>KEYWORD_NAME = /^[a-z_$][a-z0-9_$-]*$/i\<close>. The flag \<^verbatim>\<open>i\<close> makes the two letter
  ranges match upper case as well (without the flag \<^verbatim>\<open>u\<close>, no character outside ASCII is
  folded onto an ASCII letter).
\<close>

definition is_lower :: "char \<Rightarrow> bool" where
  "is_lower ch = (CHR ''a'' \<le> ch \<and> ch \<le> CHR ''z'')"

definition is_upper :: "char \<Rightarrow> bool" where
  "is_upper ch = (CHR ''A'' \<le> ch \<and> ch \<le> CHR ''Z'')"

definition is_digit :: "char \<Rightarrow> bool" where
  "is_digit ch = (CHR ''0'' \<le> ch \<and> ch \<le> CHR ''9'')"

definition name_start :: "char \<Rightarrow> bool" where
  "name_start ch = (is_lower ch \<or> is_upper ch \<or> ch = CHR ''_'' \<or> ch = CHR ''$'')"

definition name_rest :: "char \<Rightarrow> bool" where
  "name_rest ch = (is_lower ch \<or> is_upper ch \<or> is_digit ch \<or> ch = CHR ''_'' \<or> ch = CHR ''$'' \<or> ch = CHR ''-'')"

definition KEYWORD_NAME :: "string \<Rightarrow> bool" where
  "KEYWORD_NAME s = (case s of [] \<Rightarrow> False | ch # cs \<Rightarrow> name_start ch \<and> list_all name_rest cs)"

text \<open>
  The pattern as the spec writes it, \<^verbatim>\<open>^[a-z_$][a-z0-9_$-]*$\<close>, without a flag: lower
  case only.
\<close>

definition spec_keyword_pattern :: "string \<Rightarrow> bool" where
  "spec_keyword_pattern s =
     (case s of
        [] \<Rightarrow> False
      | ch # cs \<Rightarrow>
          (is_lower ch \<or> ch = CHR ''_'' \<or> ch = CHR ''$'') \<and>
          list_all (\<lambda>x. is_lower x \<or> is_digit x \<or> x = CHR ''_'' \<or> x = CHR ''$'' \<or> x = CHR ''-'') cs)"

text \<open>
  The names that every object inherits from \<^verbatim>\<open>Object.prototype\<close>. A read of one of them on
  an object that has no own property of that name gives a function (for \<^verbatim>\<open>__proto__\<close>
  the prototype object), which is truthy.
\<close>

definition object_prototype_names :: "string list" where
  "object_prototype_names =
     [''constructor'', ''toString'', ''toLocaleString'', ''valueOf'', ''hasOwnProperty'',
      ''isPrototypeOf'', ''propertyIsEnumerable'', ''__proto__'', ''__defineGetter__'',
      ''__defineSetter__'', ''__lookupGetter__'', ''__lookupSetter__'']"

text \<open>The keyword has an own entry of value true in \<^verbatim>\<open>RULES.keywords\<close>.\<close>

definition own_registered :: "ValidationRules \<Rightarrow> string \<Rightarrow> bool" where
  "own_registered R kwd = (map_of (RULES_keywords R) kwd = Some True)"

text \<open>
  \<^verbatim>\<open>RULES.keywords[kwd]\<close> read as a condition, as \<^verbatim>\<open>checkKeyword\<close> does. The registry is a
  plain object: an own entry decides, and without one the read falls through to what the
  object inherits, so it is truthy for the names above although no keyword of that name
  was ever registered.
\<close>

definition keyword_registered :: "ValidationRules \<Rightarrow> string \<Rightarrow> bool" where
  "keyword_registered R kwd =
     (case map_of (RULES_keywords R) kwd of
        Some b \<Rightarrow> b
      | None \<Rightarrow> kwd \<in> set object_prototype_names)"

text \<open>\<^verbatim>\<open>if (def.type)\<close>: an undefined type and the empty string are falsy, an array is not.\<close>

fun type_truthy :: "string one_or_many option \<Rightarrow> bool" where
  "type_truthy None = False"
| "type_truthy (Some (One t)) = (t \<noteq> [])"
| "type_truthy (Some (Many ts)) = True"

text \<open>The check of one keyword name, the callback of the first \<^verbatim>\<open>eachItem\<close>.\<close>

definition check_name :: "ValidationRules \<Rightarrow> string \<Rightarrow> error + unit" where
  "check_name R kwd =
     (if keyword_registered R kwd then Inl (KeywordAlreadyDefined kwd)
      else if \<not> KEYWORD_NAME kwd then Inl (KeywordInvalidName kwd)
      else Inr ())"

text \<open>
  \<^verbatim>\<open>checkKeyword(keyword, def)\<close>. \<open>checkType\<close> answers whether the absent function of that
  name accepts the type (it throws otherwise); \<open>def_code\<close> and \<open>def_validate\<close> say whether
  the definition has the property \<^verbatim>\<open>code\<close>, \<^verbatim>\<open>validate\<close>.
\<close>

definition checkKeyword ::
  "collab \<Rightarrow> string one_or_many \<Rightarrow> KeywordDefinition option \<Rightarrow> Ajv \<Rightarrow> error + unit" where
  "checkKeyword c kw df ajv =
     bindE (forE (\<lambda>kwd _. check_name (RULES ajv) kwd) (eachItem kw) ()) (\<lambda>_.
       case df of
         None \<Rightarrow> Inr ()
       | Some d \<Rightarrow>
           bindE (case def_type d of
                    None \<Rightarrow> Inr ()
                  | Some ts \<Rightarrow>
                      if type_truthy (Some ts)
                      then forE (\<lambda>t _. if checkType c t (RULES ajv) then Inr () else Inl (UnknownType t))
                             (eachItem ts) ()
                      else Inr ()) (\<lambda>_.
             if def_data d \<and> \<not> (def_code d \<or> def_validate d) then Inl DataKeywordNeedsCode
             else Inr ()))"

definition dataRef :: json where
  "dataRef = JObj [(''$ref'',
     JStr ''https://raw.githubusercontent.com/ajv-validator/ajv/master/lib/refs/data.json#'')]"

definition schemaOrData :: "json \<Rightarrow> json" where
  "schemaOrData sch = JObj [(''anyOf'', JArr [sch, dataRef])]"

text \<open>
  \<^verbatim>\<open>keywordMetaschema(def)\<close>: compiles the meta-schema of the definition as a meta-schema
  and stores the validator in the definition.
\<close>

definition keywordMetaschema ::
  "collab \<Rightarrow> KeywordDefinition \<Rightarrow> Ajv \<Rightarrow> error + KeywordDefinition \<times> Ajv" where
  "keywordMetaschema c d ajv =
     (case def_metaSchema d of
        None \<Rightarrow> Inr (d, ajv)
      | Some ms \<Rightarrow>
          (let ms1 = (if def_data d \<and> js_truthy (opt_data (opts ajv)) then schemaOrData ms else ms)
           in bindE (compile c ms1 (Some True) ajv) (\<lambda>(v, ajv1).
                Inr (d\<lparr>def_validateSchema := Some v\<rparr>, ajv1))))"

text \<open>\<^verbatim>\<open>Array.prototype.findIndex\<close>: the first position that satisfies the test, if any.\<close>

fun findIndex :: "('a \<Rightarrow> bool) \<Rightarrow> 'a list \<Rightarrow> nat option" where
  "findIndex P [] = None"
| "findIndex P (x # xs) =
     (if P x then Some 0 else (case findIndex P xs of None \<Rightarrow> None | Some i \<Rightarrow> Some (Suc i)))"

text \<open>\<^verbatim>\<open>xs.splice(i, 0, x)\<close> for a position \<open>i\<close> of the list.\<close>

definition splice_insert :: "nat \<Rightarrow> 'a \<Rightarrow> 'a list \<Rightarrow> 'a list" where
  "splice_insert i x xs = take i xs @ x # drop i xs"

text \<open>
  \<^verbatim>\<open>addBeforeRule(ruleGroup, rule, before)\<close>: changes the rule list of the group and may
  log a warning; the model returns the group and the logger.
\<close>

definition addBeforeRule ::
  "RuleGroup \<Rightarrow> Rule \<Rightarrow> string \<Rightarrow> log_entry list \<Rightarrow> RuleGroup \<times> log_entry list" where
  "addBeforeRule ruleGroup rule before lg =
     (case findIndex (\<lambda>r. rule_keyword r = before) (group_rules ruleGroup) of
        Some i \<Rightarrow> (ruleGroup\<lparr>group_rules := splice_insert i rule (group_rules ruleGroup)\<rparr>, lg)
      | None \<Rightarrow>
          (ruleGroup\<lparr>group_rules := group_rules ruleGroup @ [rule]\<rparr>,
           lg @ [LogWarn (''rule '' @ before @ '' is not defined'')]))"

text \<open>
  The start of \<^verbatim>\<open>addRule\<close>: the position in \<^verbatim>\<open>RULES.rules\<close> of the group of the data
  type, a new empty group being pushed when there is none.
\<close>

definition find_or_add_group :: "string option \<Rightarrow> ValidationRules \<Rightarrow> nat \<times> ValidationRules" where
  "find_or_add_group dataType R =
     (case findIndex (\<lambda>g. group_type g = dataType) (RULES_rules R) of
        Some i \<Rightarrow> (i, R)
      | None \<Rightarrow>
          (length (RULES_rules R),
           R\<lparr>RULES_rules := RULES_rules R @ [\<lparr>group_type = dataType, group_rules = []\<rparr>]\<rparr>))"

text \<open>\<^verbatim>\<open>if (definition.before)\<close>: the hint, when it is a non-empty string.\<close>

definition before_hint :: "KeywordDefinition \<Rightarrow> string option" where
  "before_hint d = (case def_before d of Some b \<Rightarrow> if b \<noteq> [] then Some b else None | None \<Rightarrow> None)"

text \<open>The keywords that \<^verbatim>\<open>definition.implements?.forEach\<close> visits.\<close>

definition implied_keywords :: "KeywordDefinition \<Rightarrow> string list" where
  "implied_keywords d = (case def_implements d of None \<Rightarrow> [] | Some ks \<Rightarrow> ks)"

text \<open>
  \<^verbatim>\<open>addRule(keyword, dataType, definition)\<close>. Its last line calls \<^verbatim>\<open>this.addKeyword(kwd)\<close>
  for every implied keyword; that call is the first parameter here.
\<close>

definition addRule ::
  "(string \<Rightarrow> Ajv \<Rightarrow> error + Ajv) \<Rightarrow> string \<Rightarrow> string option \<Rightarrow> KeywordDefinition option \<Rightarrow>
   Ajv \<Rightarrow> error + Ajv" where
  "addRule addKeyword_name kw dataType df ajv =
     (let (gi, R1) = find_or_add_group dataType (RULES ajv);
          R2 = R1\<lparr>RULES_keywords := AList.update kw True (RULES_keywords R1)\<rparr>
      in case df of
           None \<Rightarrow> Inr (ajv\<lparr>RULES := R2\<rparr>)
         | Some d \<Rightarrow>
             (let rule = \<lparr>rule_keyword = kw, rule_definition = d\<rparr>;
                  g = RULES_rules R2 ! gi;
                  (g1, lg) = (case before_hint d of
                                Some b \<Rightarrow> addBeforeRule g rule b (logger ajv)
                              | None \<Rightarrow> (g\<lparr>group_rules := group_rules g @ [rule]\<rparr>, logger ajv));
                  R3 = R2\<lparr>RULES_rules := (RULES_rules R2)[gi := g1],
                          RULES_all := AList.update kw (IsRule rule) (RULES_all R2)\<rparr>
              in forE addKeyword_name (implied_keywords d) (ajv\<lparr>RULES := R3, logger := lg\<rparr>)))"

datatype kwd_or_def = KString string | KDef KeywordDefinition

text \<open>The values that \<^verbatim>\<open>eachItem(def?.type, ...)\<close> visits.\<close>

definition def_types :: "KeywordDefinition option \<Rightarrow> string option list" where
  "def_types df =
     (case df of
        None \<Rightarrow> [None]
      | Some d \<Rightarrow> (case def_type d of None \<Rightarrow> [None] | Some ts \<Rightarrow> map Some (eachItem ts)))"

text \<open>
  The first lines of \<^verbatim>\<open>addKeyword(kwdOrDef, def)\<close>: the two accepted shapes of the
  arguments. The deprecated shape, a name and a definition, logs a warning and writes
  the name into the definition.
\<close>

definition addKeyword_args ::
  "kwd_or_def \<Rightarrow> KeywordDefinition option \<Rightarrow> Ajv \<Rightarrow>
   error + string one_or_many \<times> KeywordDefinition option \<times> Ajv" where
  "addKeyword_args kwdOrDef df ajv =
     (case kwdOrDef of
        KString k \<Rightarrow>
          (case df of
             Some d \<Rightarrow>
               Inr (One k, Some (d\<lparr>def_keyword := One k\<rparr>),
                    warn ''these parameters are deprecated, see docs for addKeyword'' ajv)
           | None \<Rightarrow> Inr (One k, None, ajv))
      | KDef d \<Rightarrow>
          (case df of
             None \<Rightarrow> Inr (def_keyword d, Some d, ajv)
           | Some _ \<Rightarrow> Inl InvalidAddKeywordsParameters))"

text \<open>
  \<^verbatim>\<open>addKeyword\<close>, with the call it makes to itself for an implied keyword as the first
  parameter.
\<close>

definition addKeyword_with ::
  "(string \<Rightarrow> Ajv \<Rightarrow> error + Ajv) \<Rightarrow> collab \<Rightarrow> kwd_or_def \<Rightarrow> KeywordDefinition option \<Rightarrow>
   Ajv \<Rightarrow> error + Ajv" where
  "addKeyword_with addKeyword_name c kwdOrDef df0 ajv =
     bindE (addKeyword_args kwdOrDef df0 ajv) (\<lambda>(kw, df, ajv1).
       bindE (checkKeyword c kw df ajv1) (\<lambda>_.
         bindE (case df of
                  None \<Rightarrow> Inr (None, ajv1)
                | Some d \<Rightarrow> bindE (keywordMetaschema c d ajv1) (\<lambda>(d1, ajv2). Inr (Some d1, ajv2)))
           (\<lambda>(df1, ajv2).
              forE (\<lambda>kwd. forE (\<lambda>t. addRule addKeyword_name kwd t df1) (def_types df1))
                (eachItem kw) ajv2)))"

text \<open>
  The recursion of \<^verbatim>\<open>addKeyword\<close> is two calls deep: the call for an implied keyword
  passes a name and no definition, and \<^verbatim>\<open>addRule\<close> returns before its last line when
  there is no definition. \<open>addKeyword_implied\<close> is that inner call (its own parameter is
  never called), \<open>addKeyword\<close> the method.
\<close>

definition addKeyword_implied :: "collab \<Rightarrow> string \<Rightarrow> Ajv \<Rightarrow> error + Ajv" where
  "addKeyword_implied c k ajv = addKeyword_with (\<lambda>_ a. Inr a) c (KString k) None ajv"

definition addKeyword :: "collab \<Rightarrow> kwd_or_def \<Rightarrow> KeywordDefinition option \<Rightarrow> Ajv \<Rightarrow> error + Ajv" where
  "addKeyword c kwdOrDef df ajv = addKeyword_with (addKeyword_implied c) c kwdOrDef df ajv"

text \<open>
  A definition that is valid apart from its keyword name, on an instance: its types pass
  \<^verbatim>\<open>checkType\<close>; with \<^verbatim>\<open>$data\<close> it has a code generator or a validate function; its
  meta-schema, if any, compiles, and compiling leaves the rule registry alone; and the
  keywords it implies can be registered once each, that is, either it implies none, or
  it is added for one data type at most and the implied names are well-formed, different
  from each other and from the keyword, and not truthy in \<^verbatim>\<open>RULES.keywords\<close>. (A
  definition with implied keywords and two data types makes \<^verbatim>\<open>addRule\<close> register the
  implied keywords a second time, which throws; that case is not among these.)
\<close>

definition types_ok :: "collab \<Rightarrow> KeywordDefinition \<Rightarrow> Ajv \<Rightarrow> bool" where
  "types_ok c d ajv =
     (case def_type d of
        None \<Rightarrow> True
      | Some ts \<Rightarrow> \<not> type_truthy (Some ts) \<or> list_all (\<lambda>t. checkType c t (RULES ajv)) (eachItem ts))"

definition metaSchema_ok :: "collab \<Rightarrow> KeywordDefinition \<Rightarrow> Ajv \<Rightarrow> bool" where
  "metaSchema_ok c d ajv =
     (case keywordMetaschema c d ajv of
        Inl e \<Rightarrow> False
      | Inr (d1, ajv1) \<Rightarrow> RULES ajv1 = RULES ajv)"

definition implements_ok :: "string \<Rightarrow> KeywordDefinition \<Rightarrow> Ajv \<Rightarrow> bool" where
  "implements_ok k d ajv =
     (implied_keywords d = [] \<or>
      (length (def_types (Some d)) \<le> 1 \<and> distinct (implied_keywords d) \<and>
       list_all (\<lambda>k'. KEYWORD_NAME k' \<and> \<not> keyword_registered (RULES ajv) k' \<and> k' \<noteq> k)
         (implied_keywords d)))"

definition otherwise_valid :: "collab \<Rightarrow> string \<Rightarrow> KeywordDefinition \<Rightarrow> Ajv \<Rightarrow> bool" where
  "otherwise_valid c k d ajv =
     (types_ok c d ajv \<and> (def_data d \<longrightarrow> def_code d \<or> def_validate d) \<and>
      metaSchema_ok c d ajv \<and> implements_ok k d ajv)"

subsection \<open>The enum validator\<close>






subsection \<open>Reading a serialisation\<close>






subsection \<open>The meta-schema with data references\<close>

text \<open>\<^verbatim>\<open>s.split("/")\<close>: the pieces between the slashes, one more than there are slashes.\<close>

fun split_slash :: "string \<Rightarrow> string list" where
  "split_slash [] = [[]]"
| "split_slash (ch # cs) =
     (if ch = CHR ''/'' then [] # split_slash cs
      else (case split_slash cs of [] \<Rightarrow> [[ch]] | w # ws \<Rightarrow> (ch # w) # ws))"

text \<open>
  \<^verbatim>\<open>for (const seg of segments) keywords = keywords[seg]\<close>: the value that the variable
  \<^verbatim>\<open>keywords\<close> points to in the end.
\<close>

fun walk :: "json \<Rightarrow> string list \<Rightarrow> error + json" where
  "walk v [] = Inr v"
| "walk v (seg # segs) = bindE (get_prop v seg) (\<lambda>w. walk w segs)"

text \<open>
  \<^verbatim>\<open>v[k] = w\<close> where the loop below does it: on an object, and on an array at one of its
  positions (a write is made only where the read gave a truthy value).
\<close>

fun set_prop :: "json \<Rightarrow> string \<Rightarrow> json \<Rightarrow> json" where
  "set_prop (JObj kvs) k w = JObj (AList.update k w kvs)"
| "set_prop (JArr xs) k w = (case array_index k (length xs) of None \<Rightarrow> JArr xs | Some i \<Rightarrow> JArr (xs[i := w]))"
| "set_prop v k w = v"

text \<open>
  The loop over \<^verbatim>\<open>RULES.all\<close>, on the value \<open>kw\<close> that \<^verbatim>\<open>keywords\<close> points to: every rule
  whose definition has \<^verbatim>\<open>$data\<close> and whose keyword has a truthy value in \<open>kw\<close> gets that
  value replaced by \<open>schemaOrData\<close> of it.
\<close>

fun apply_rules :: "(string \<times> rule_entry) list \<Rightarrow> json \<Rightarrow> error + json" where
  "apply_rules [] kw = Inr kw"
| "apply_rules ((k, IsTrue) # rs) kw = apply_rules rs kw"
| "apply_rules ((k, IsRule r) # rs) kw =
     bindE (get_prop kw k) (\<lambda>sch.
       if def_data (rule_definition r) \<and> js_truthy sch
       then apply_rules rs (set_prop kw k (schemaOrData sch))
       else apply_rules rs kw)"

text \<open>
  The copy is a tree, so the writes through \<^verbatim>\<open>keywords\<close> are a replacement, inside the
  copy, of the value at the end of the path; a loop that wrote nothing leaves the copy as
  it is.
\<close>

fun put_at :: "string list \<Rightarrow> json \<Rightarrow> json \<Rightarrow> json" where
  "put_at [] new old = new"
| "put_at (seg # segs) new old =
     set_prop old seg
       (put_at segs new (case get_prop old seg of Inl e \<Rightarrow> JUndefined | Inr w \<Rightarrow> w))"

text \<open>
  \<^verbatim>\<open>$dataMetaSchema(metaSchema, keywordsJsonPointers)\<close>. Meta-schemas are objects with an
  identity: \<open>st\<close> holds them, an address is a position in it, and the method returns the
  address of its result with the store it leaves. Every round of the loop lets the
  variable \<^verbatim>\<open>metaSchema\<close> point to a fresh copy and writes into the copy. An address
  outside the store does not occur in a run.
\<close>

fun dataMetaSchema ::
  "(string \<times> rule_entry) list \<Rightarrow> string list \<Rightarrow> nat \<Rightarrow> json list \<Rightarrow> error + nat \<times> json list" where
  "dataMetaSchema all_rules [] a st = Inr (a, st)"
| "dataMetaSchema all_rules (jsonPointer # ps) a st =
     (if a < length st then
        (case json_clone (st ! a) of
           None \<Rightarrow> Inl (Thrown ''SyntaxError'')
         | Some copy \<Rightarrow>
             (let segments = drop 1 (split_slash jsonPointer) in
              bindE (walk copy segments) (\<lambda>kw.
                bindE (apply_rules all_rules kw) (\<lambda>kw1.
                  dataMetaSchema all_rules ps (length st)
                    (st @ [if kw1 = kw then copy else put_at segments kw1 copy])))))
      else Inl ImplementationError)"

subsection \<open>The properties keyword\<close>

text \<open>
  What the code generator of \<^verbatim>\<open>properties\<close> reads of the compilation context \<^verbatim>\<open>it\<close>: the
  options \<^verbatim>\<open>useDefaults\<close> and \<^verbatim>\<open>ownProperties\<close>, and the flags \<^verbatim>\<open>compositeRule\<close> and
  \<^verbatim>\<open>allErrors\<close>.
\<close>

record gen_context =
  it_useDefaults :: json
  it_ownProperties :: bool
  it_compositeRule :: bool
  it_allErrors :: bool

text \<open>
  The code that the generator emits, as a syntax tree: the application of the subschema
  of a property to that property of the data (\<^verbatim>\<open>applySubschema\<close>, which leaves its answer
  in the variable \<^verbatim>\<open>valid\<close>), the conditional on \<^verbatim>\<open>propertyInData\<close> with its two branches,
  the statement \<^verbatim>\<open>var valid = true;\<close>, and \<^verbatim>\<open>ok(valid)\<close>.
\<close>

datatype stmt =
    ApplyPropertySchema string
  | IfPropertyInData string bool "stmt list" "stmt list"
  | SetValidTrue
  | OkValid

text \<open>
  \<^verbatim>\<open>hasDefault(prop)\<close>: \<^verbatim>\<open>it.opts.useDefaults && !it.compositeRule &&
  schema[prop].default !== undefined\<close>.
\<close>

definition hasDefault :: "gen_context \<Rightarrow> json \<Rightarrow> string \<Rightarrow> error + bool" where
  "hasDefault it sch prop =
     (if js_truthy (it_useDefaults it) \<and> \<not> it_compositeRule it then
        bindE (get_prop sch prop) (\<lambda>sub.
          bindE (get_prop sub ''default'') (\<lambda>d. Inr (d \<noteq> JUndefined)))
      else Inr False)"

text \<open>The body of the loop of \<^verbatim>\<open>code(cxt)\<close> for one property.\<close>

definition property_code :: "gen_context \<Rightarrow> json \<Rightarrow> string \<Rightarrow> error + stmt list" where
  "property_code it sch prop =
     bindE (hasDefault it sch prop) (\<lambda>hd.
       Inr ((if hd then [ApplyPropertySchema prop]
             else [IfPropertyInData prop (it_ownProperties it)
                     [ApplyPropertySchema prop]
                     (if \<not> it_allErrors it then [SetValidTrue] else [])])
            @ [OkValid]))"

fun properties_loop :: "gen_context \<Rightarrow> json \<Rightarrow> string list \<Rightarrow> error + stmt list" where
  "properties_loop it sch [] = Inr []"
| "properties_loop it sch (prop # ps) =
     bindE (property_code it sch prop) (\<lambda>c.
       bindE (properties_loop it sch ps) (\<lambda>cs. Inr (c @ cs)))"

text \<open>
  Modelled from the spec: \<^verbatim>\<open>schemaProperties\<close> of \<^verbatim>\<open>../util\<close> is not among the files. The
  spec speaks of each declared property: the names of the properties of the schema value
  of the keyword.
\<close>

definition schemaProperties :: "json \<Rightarrow> string list" where
  "schemaProperties sch = (case sch of JObj kvs \<Rightarrow> map fst kvs | _ \<Rightarrow> [])"

text \<open>\<^verbatim>\<open>code(cxt)\<close> of the keyword \<^verbatim>\<open>properties\<close>, for the schema value \<open>sch\<close> of the keyword.\<close>

definition properties_code :: "gen_context \<Rightarrow> json \<Rightarrow> error + stmt list" where
  "properties_code it sch =
     (let properties = schemaProperties sch in
      if length properties = 0 then Inr [] else properties_loop it sch properties)"

text \<open>
  Modelled from the spec: the keyword \<^verbatim>\<open>type\<close> of the vocabulary, whose code is not among
  the files. A value passes if and only if it matches one of the listed primitive types;
  integer is a number that is integral (every number of the model is).
\<close>

fun matches_type :: "string \<Rightarrow> json \<Rightarrow> bool" where
  "matches_type t JUndefined = False"
| "matches_type t JNull = (t = ''null'')"
| "matches_type t (JBool b) = (t = ''boolean'')"
| "matches_type t (JNum n) = (t = ''number'' \<or> t = ''integer'')"
| "matches_type t (JStr s) = (t = ''string'')"
| "matches_type t (JArr xs) = (t = ''array'')"
| "matches_type t (JObj kvs) = (t = ''object'')"

text \<open>
  Modelled from the spec: the validator that \<^verbatim>\<open>applySubschema\<close> of \<^verbatim>\<open>../../compile/subschema\<close>
  compiles for a subschema, as far as the properties here need it: a boolean schema
  accepts or rejects everything, and of an object schema the keyword \<^verbatim>\<open>type\<close> is
  checked (\<^verbatim>\<open>default\<close> is an annotation).
\<close>

definition subschema_valid :: "json \<Rightarrow> json \<Rightarrow> bool" where
  "subschema_valid sub v =
     (case sub of
        JBool b \<Rightarrow> b
      | JObj kvs \<Rightarrow>
          (case map_of kvs ''type'' of
             Some (JStr t) \<Rightarrow> matches_type t v
           | Some (JArr ts) \<Rightarrow> list_ex (\<lambda>t. case t of JStr s \<Rightarrow> matches_type s v | _ \<Rightarrow> False) ts
           | _ \<Rightarrow> True)
      | _ \<Rightarrow> True)"

text \<open>The value of a property of the data, undefined when there is none.\<close>

definition data_prop :: "json \<Rightarrow> string \<Rightarrow> json" where
  "data_prop d prop = (case get_prop d prop of Inl e \<Rightarrow> JUndefined | Inr v \<Rightarrow> v)"

text \<open>
  Modelled from the spec: the injection of defaults, whose code (\<^verbatim>\<open>assignDefaults\<close>) is
  not among the files. With defaults enabled and outside a composite rule, every declared
  property that has a default and is undefined in the data is set to the default; the
  spec says that this precedes validation.
\<close>

fun assign_defaults :: "json \<Rightarrow> string list \<Rightarrow> json \<Rightarrow> json" where
  "assign_defaults sch [] d = d"
| "assign_defaults sch (prop # ps) d =
     (let dflt = data_prop (data_prop sch prop) ''default''
      in assign_defaults sch ps
           (if dflt \<noteq> JUndefined \<and> data_prop d prop = JUndefined then set_prop d prop dflt else d))"

definition inject_defaults :: "gen_context \<Rightarrow> json \<Rightarrow> json \<Rightarrow> json" where
  "inject_defaults it sch d =
     (if js_truthy (it_useDefaults it) \<and> \<not> it_compositeRule it
      then assign_defaults sch (schemaProperties sch) d else d)"

text \<open>
  Modelled from the spec: the run of the emitted code. The state is the variable
  \<^verbatim>\<open>valid\<close>, whether an error has been reported, and whether the run goes on. A subschema
  that fails reports an error; \<^verbatim>\<open>ok(valid)\<close> ends the run on a failure unless all errors
  are collected.
\<close>

record run_state =
  rs_valid :: bool
  rs_failed :: bool
  rs_stopped :: bool

fun exec_stmt :: "gen_context \<Rightarrow> json \<Rightarrow> json \<Rightarrow> stmt \<Rightarrow> run_state \<Rightarrow> run_state"
  and exec_stmts :: "gen_context \<Rightarrow> json \<Rightarrow> json \<Rightarrow> stmt list \<Rightarrow> run_state \<Rightarrow> run_state" where
  "exec_stmt it sch d (ApplyPropertySchema prop) s =
     (let v = subschema_valid (data_prop sch prop) (data_prop d prop)
      in s\<lparr>rs_valid := v, rs_failed := rs_failed s \<or> \<not> v\<rparr>)"
| "exec_stmt it sch d (IfPropertyInData prop own th el) s =
     (if data_prop d prop \<noteq> JUndefined then exec_stmts it sch d th s else exec_stmts it sch d el s)"
| "exec_stmt it sch d SetValidTrue s = s\<lparr>rs_valid := True\<rparr>"
| "exec_stmt it sch d OkValid s =
     (if \<not> it_allErrors it \<and> \<not> rs_valid s then s\<lparr>rs_stopped := True\<rparr> else s)"
| "exec_stmts it sch d [] s = s"
| "exec_stmts it sch d (st # sts) s =
     (if rs_stopped s then s else exec_stmts it sch d sts (exec_stmt it sch d st s))"

text \<open>
  The validator of \<^verbatim>\<open>{properties: sch}\<close> on the data \<open>d\<close>: defaults are injected, then the
  emitted code runs. It returns the validity and the data it leaves.
\<close>

definition validate_properties :: "gen_context \<Rightarrow> json \<Rightarrow> json \<Rightarrow> error + bool \<times> json" where
  "validate_properties it sch d =
     bindE (properties_code it sch) (\<lambda>code.
       let d1 = inject_defaults it sch d;
           s = exec_stmts it sch d1 code \<lparr>rs_valid = True, rs_failed = False, rs_stopped = False\<rparr>
       in Inr (\<not> rs_failed s, d1))"

text \<open>The schema value of the spec's scenario: \<^verbatim>\<open>{x: {default: 5, type: "number"}}\<close>.\<close>

definition example_properties :: json where
  "example_properties = JObj [(''x'', JObj [(''default'', JNum 5), (''type'', JStr ''number'')])]"

subsection \<open>Loading missing schemas\<close>

text \<open>
  \<^verbatim>\<open>_loadSchema\<close> inside \<^verbatim>\<open>compileAsync\<close>. JavaScript runs one piece of synchronous code at
  a time, so an asynchronous function is a sequence of steps, each from one \<^verbatim>\<open>await\<close> to
  the next. The state is the table \<^verbatim>\<open>_loading\<close> and the fetches started so far: each
  call of the option \<^verbatim>\<open>loadSchema\<close> returns a promise, named by its position in the list
  of fetches. A fetch records the ref it was started for, the state of its promise, and
  whether the \<^verbatim>\<open>finally\<close> block of the call that started it has run.
\<close>

datatype promise_state = Pending | Fulfilled | Rejected

record fetch =
  f_ref :: string
  f_state :: promise_state
  f_finished :: bool

record load_state =
  loading :: "(string \<times> nat) list"
  fetches :: "fetch list"

definition initial_load_state :: load_state where
  "initial_load_state = \<lparr>loading = [], fetches = []\<rparr>"

text \<open>
  The first step of \<^verbatim>\<open>_loadSchema(ref)\<close>, up to its \<^verbatim>\<open>await\<close>: a promise found in
  \<^verbatim>\<open>_loading[ref]\<close> is returned; otherwise \<^verbatim>\<open>loadSchema(ref)\<close> is called and its promise is
  stored in \<^verbatim>\<open>_loading[ref]\<close> and awaited. The model returns the promise.
\<close>

definition request :: "string \<Rightarrow> load_state \<Rightarrow> nat \<times> load_state" where
  "request r s =
     (case map_of (loading s) r of
        Some p \<Rightarrow> (p, s)
      | None \<Rightarrow>
          (length (fetches s),
           s\<lparr>fetches := fetches s @ [\<lparr>f_ref = r, f_state = Pending, f_finished = False\<rparr>],
             loading := AList.update r (length (fetches s)) (loading s)\<rparr>))"

text \<open>The promise \<open>p\<close> of a fetch settles: it is fulfilled, or rejected.\<close>

definition settle :: "nat \<Rightarrow> bool \<Rightarrow> load_state \<Rightarrow> load_state" where
  "settle p ok s =
     (if p < length (fetches s) \<and> f_state (fetches s ! p) = Pending
      then s\<lparr>fetches := (fetches s)[p := (fetches s ! p)\<lparr>f_state := (if ok then Fulfilled else Rejected)\<rparr>]\<rparr>
      else s)"

text \<open>
  The last step of the call that started the fetch \<open>p\<close>, once the promise has settled: the
  \<^verbatim>\<open>finally\<close> block, \<^verbatim>\<open>delete this._loading[ref]\<close>, on either outcome.
\<close>

definition resume :: "nat \<Rightarrow> load_state \<Rightarrow> load_state" where
  "resume p s =
     (if p < length (fetches s) \<and> f_state (fetches s ! p) \<noteq> Pending \<and> \<not> f_finished (fetches s ! p)
      then s\<lparr>fetches := (fetches s)[p := (fetches s ! p)\<lparr>f_finished := True\<rparr>],
             loading := AList.delete (f_ref (fetches s ! p)) (loading s)\<rparr>
      else s)"

text \<open>
  What can happen, in any order and any number of times: some \<^verbatim>\<open>compileAsync\<close> reaches
  \<^verbatim>\<open>_loadSchema(ref)\<close>, a promise settles, a suspended call resumes.
\<close>

datatype load_event = Request string | Settle nat bool | Resume nat

fun load_step :: "load_state \<Rightarrow> load_event \<Rightarrow> load_state" where
  "load_step s (Request r) = snd (request r s)"
| "load_step s (Settle p ok) = settle p ok s"
| "load_step s (Resume p) = resume p s"

definition load_run :: "load_event list \<Rightarrow> load_state \<Rightarrow> load_state" where
  "load_run evs s = foldl load_step s evs"

text \<open>The fetch \<open>p\<close> is in flight for the ref \<open>r\<close>; the number of calls of \<^verbatim>\<open>loadSchema(r)\<close>.\<close>

definition in_flight :: "load_state \<Rightarrow> string \<Rightarrow> nat \<Rightarrow> bool" where
  "in_flight s r p = (p < length (fetches s) \<and> f_ref (fetches s ! p) = r \<and> f_state (fetches s ! p) = Pending)"

definition loadSchema_calls :: "load_state \<Rightarrow> string \<Rightarrow> nat" where
  "loadSchema_calls s r = count_list (map f_ref (fetches s)) r"

text \<open>
  The invariant of the table: a fetch whose \<^verbatim>\<open>finally\<close> block has not run owns the entry
  of its ref, a pending fetch is such a fetch, and every entry belongs to such a fetch.
\<close>

definition load_inv :: "load_state \<Rightarrow> bool" where
  "load_inv s =
     ((\<forall>p < length (fetches s).
         (\<not> f_finished (fetches s ! p) \<longrightarrow> map_of (loading s) (f_ref (fetches s ! p)) = Some p) \<and>
         (f_state (fetches s ! p) = Pending \<longrightarrow> \<not> f_finished (fetches s ! p))) \<and>
      (\<forall>r p. map_of (loading s) r = Some p \<longrightarrow>
         p < length (fetches s) \<and> f_ref (fetches s ! p) = r \<and> \<not> f_finished (fetches s ! p)))"

subsection \<open>A small instance\<close>

text \<open>
  Concrete values on which the properties below are run. The stand-ins for the absent
  code are the simplest that fit: the serialisation is \<open>stableStringify\<close>, an id is
  normalised to itself (an undefined one to the empty string), a schema has no local
  references, the base id is the \<^verbatim>\<open>$id\<close> of the schema, the compiler stores a validator
  numbered like the environment, the meta-schema validator accepts every schema.
\<close>

definition example_collab :: collab where
  "example_collab =
     \<lparr>serialize = (\<lambda>s. case stableStringify s of None \<Rightarrow> ''undefined'' | Some t \<Rightarrow> t),
      normalizeId = (\<lambda>i. case i of None \<Rightarrow> [] | Some s \<Rightarrow> s),
      getSchemaRefs = (\<lambda>ajv s. Inr []),
      baseId_of = (\<lambda>s. case s of
                          JObj kvs \<Rightarrow> (case map_of kvs ''$id'' of Some (JStr i) \<Rightarrow> i | _ \<Rightarrow> [])
                        | _ \<Rightarrow> []),
      compileSchema = (\<lambda>ajv a.
         if a < length (store ajv)
         then Inr (ajv\<lparr>store := (store ajv)[a := (store ajv ! a)\<lparr>validate := Some a\<rparr>]\<rparr>)
         else Inl (Thrown ''no such environment'')),
      run_validate = (\<lambda>ajv s d. Inr (True, ajv)),
      run_getSchema = (\<lambda>ajv k. Inr (False, ajv)),
      checkType = (\<lambda>t R. t \<in> set [''number'', ''integer'', ''string'', ''boolean'',
                                     ''null'', ''object'', ''array''])\<rparr>"

definition example_opts :: InstanceOptions where
  "example_opts =
     \<lparr>opt_validateSchema = JBool True, opt_addUsedSchema = JBool True, opt_data = JUndefined,
      opt_meta = JUndefined, opt_defaultMeta = JUndefined, opt_removeAdditional = JUndefined,
      opt_useDefaults = JUndefined, opt_coerceTypes = JUndefined\<rparr>"

text \<open>An instance with nothing registered.\<close>

definition example_ajv :: Ajv where
  "example_ajv =
     \<lparr>opts = example_opts, metaOpts = example_opts, errors = Undefined, schemas = [], refs = [],
      RULES = \<lparr>RULES_rules = [], RULES_all = [], RULES_keywords = []\<rparr>,
      cache = [], store = [], logger = []\<rparr>"

text \<open>
  An instance with a meta-schema under the key \<open>''meta''\<close> and two user schemas under the
  keys \<open>''user''\<close> and \<open>''user2''\<close>, all three in \<^verbatim>\<open>schemas\<close>, \<^verbatim>\<open>refs\<close> and the cache.
\<close>

definition example_registered :: Ajv where
  "example_registered =
     example_ajv
       \<lparr>schemas := [(''meta'', Env 0), (''user'', Env 1), (''user2'', Env 2)],
        refs := [(''meta'', Env 0), (''user'', Env 1), (''user2'', Env 2),
                 (''alias'', Alias ''meta'')],
        cache := [(''{\"$id\":\"meta\"}'', 0), (''{\"$id\":\"user\"}'', 1),
                  (''{\"$id\":\"user2\"}'', 2)],
        store :=
          [\<lparr>schema = JObj [(''$id'', JStr ''meta'')], cacheKey = ''{\"$id\":\"meta\"}'',
            baseId = ''meta'', localRefs = [], meta = Some True, validate = None\<rparr>,
           \<lparr>schema = JObj [(''$id'', JStr ''user'')], cacheKey = ''{\"$id\":\"user\"}'',
            baseId = ''user'', localRefs = [], meta = None, validate = None\<rparr>,
           \<lparr>schema = JObj [(''$id'', JStr ''user2'')], cacheKey = ''{\"$id\":\"user2\"}'',
            baseId = ''user2'', localRefs = [], meta = None, validate = None\<rparr>]\<rparr>"

text \<open>
  The search for a literal pattern, and the expressions \<^verbatim>\<open>/user/\<close> and \<^verbatim>\<open>/user/g\<close> before
  their first use.
\<close>

definition literal_exec :: "string \<Rightarrow> string \<Rightarrow> nat \<Rightarrow> nat option" where
  "literal_exec pat s i =
     (case find (\<lambda>j. take (length pat) (drop j s) = pat) [i..<Suc (length s)] of
        None \<Rightarrow> None
      | Some j \<Rightarrow> Some (j + length pat))"

definition user_regexp :: RegExp where
  "user_regexp = \<lparr>re_exec = literal_exec ''user'', re_stateful = False, lastIndex = 0\<rparr>"

definition user_regexp_global :: RegExp where
  "user_regexp_global = \<lparr>re_exec = literal_exec ''user'', re_stateful = True, lastIndex = 0\<rparr>"

text \<open>Two schemas: one without an \<^verbatim>\<open>$id\<close>, one with.\<close>

definition string_schema :: json where
  "string_schema = JObj [(''type'', JStr ''string'')]"

definition named_schema :: json where
  "named_schema = JObj [(''$id'', JStr ''http://example.com/named''), (''type'', JStr ''number'')]"

text \<open>A keyword definition with a code generator, for data of type number, and its rule.\<close>

definition example_def :: "string \<Rightarrow> KeywordDefinition" where
  "example_def k =
     \<lparr>def_keyword = One k, def_type = Some (One ''number''), def_data = False, def_code = True,
      def_validate = False, def_before = None, def_implements = None, def_metaSchema = None,
      def_validateSchema = None\<rparr>"



text \<open>
  A small meta-schema, and a registry in which \<^verbatim>\<open>maximum\<close> is a keyword with \<^verbatim>\<open>$data\<close> and
  \<^verbatim>\<open>type\<close> is a keyword without a rule.
\<close>

definition example_meta :: json where
  "example_meta =
     JObj [(''$id'', JStr ''meta''),
           (''properties'', JObj [(''maximum'', JObj [(''type'', JStr ''number'')]),
                                  (''type'', JObj [(''type'', JStr ''string'')])])]"

definition example_all :: "(string \<times> rule_entry) list" where
  "example_all =
     [(''type'', IsTrue),
      (''maximum'', IsRule \<lparr>rule_keyword = ''maximum'',
                            rule_definition = (example_def ''maximum'')\<lparr>def_data := True\<rparr>\<rparr>)]"

section \<open>Properties\<close>

subsection \<open>Sequencing and evaluation\<close>

lemma bindE_Inr_iff: "bindE m f = Inr y \<longleftrightarrow> (\<exists>x. m = Inr x \<and> f x = Inr y)"
  by (cases m) (simp_all add: bindE_def)

lemma bindE_Inr_pairE:
  assumes "bindE m (\<lambda>(x, y). f x y) = Inr z"
  obtains x y where "m = Inr (x, y)" and "f x y = Inr z"
  using assms by (cases m) (auto simp: bindE_def)

lemma bindE_InrE:
  assumes "bindE m f = Inr z"
  obtains x where "m = Inr x" and "f x = Inr z"
  using assms by (cases m) (auto simp: bindE_def)

lemmas example_defs =
  example_collab_def example_ajv_def example_opts_def string_schema_def named_schema_def

lemmas addSchema_defs =
  addSchema_single_def schema_id_def bindE_def Let_def private_checkUnique_def table_truthy_def
  private_addSchema_def cache_get_def cache_put_def starts_with_hash_def key_or_id_def
  validateSchema_def defaultMeta_def js_or_def warn_def register_ref_def validate_added_def
  meta_schema_ref_def validateSchema_report_def

subsection \<open>Adding a schema twice\<close>

lemma addSchema_not_array:
  "\<not> is_array s \<Longrightarrow> addSchema c s k m vs ajv =
     addSchema_single c s k m (if vs = JUndefined then opt_validateSchema (opts ajv) else vs) ajv"
  by (cases s) simp_all

lemma addSchema_single_registers:
  assumes "addSchema_single c s k m vs ajv = Inr ajv1"
  shows "\<exists>i a. schema_id s = Inr i \<and> map_of (schemas ajv1) (normalizeId c (key_or_id k i)) = Some (Env a)"
  using assms
  by (auto simp: addSchema_single_def bindE_Inr_iff Let_def update_conv')

lemma addSchema_single_duplicate:
  assumes "schema_id s = Inr i" "map_of (schemas ajv) (normalizeId c (key_or_id k i)) = Some (Env a)"
  shows "addSchema_single c s k m vs ajv = Inl (DuplicateSchema (normalizeId c (key_or_id k i)))"
  using assms
  by (simp add: addSchema_single_def bindE_def Let_def private_checkUnique_def table_truthy_def)

text \<open>
  Claim C1, as the code has it. After a first successful \<^verbatim>\<open>addSchema(s)\<close> of a schema that
  is not an array, a second \<^verbatim>\<open>addSchema(s)\<close> with the same key argument throws the
  duplicate error, whether \<open>s\<close> declares an \<^verbatim>\<open>$id\<close> or not: the first call stored the
  environment in \<^verbatim>\<open>schemas\<close> under the normalised \<^verbatim>\<open>key || $id\<close>, the second call computes
  the same key and \<^verbatim>\<open>_checkUnique\<close> finds it taken before the cache is looked at. This
  holds whatever the absent code does.
\<close>

theorem addSchema_twice_duplicate:
  assumes "\<not> is_array s" "addSchema c s k m vs ajv = Inr ajv1"
  shows "\<exists>i. schema_id s = Inr i \<and>
           addSchema c s k m' vs' ajv1 = Inl (DuplicateSchema (normalizeId c (key_or_id k i)))"
proof -
  from assms have "addSchema_single c s k m (if vs = JUndefined then opt_validateSchema (opts ajv) else vs) ajv = Inr ajv1"
    by (simp add: addSchema_not_array)
  from addSchema_single_registers [OF this] obtain i a where
    i: "schema_id s = Inr i" and
    r: "map_of (schemas ajv1) (normalizeId c (key_or_id k i)) = Some (Env a)" by blast
  from addSchema_single_duplicate [OF i r] assms(1) i show ?thesis
    by (simp add: addSchema_not_array)
qed

lemma addSchema_string_schema_ok:
  "\<exists>ajv1. addSchema example_collab string_schema None None JUndefined example_ajv = Inr ajv1"
  by (simp add: example_defs addSchema_defs)

lemma addSchema_named_schema_ok:
  "\<exists>ajv1. addSchema example_collab named_schema None None JUndefined example_ajv = Inr ajv1"
  by (simp add: example_defs addSchema_defs)

text \<open>
  The claim as it is written fails on a schema without \<^verbatim>\<open>$id\<close> and without a key: the
  first call succeeds, and the second call throws the duplicate error for the empty key;
  it does not return the cached environment.
\<close>

theorem addSchema_twice_counterexample:
  "\<exists>ajv1. addSchema example_collab string_schema None None JUndefined example_ajv = Inr ajv1 \<and>
     schema_id string_schema = Inr None \<and>
     addSchema example_collab string_schema None None JUndefined ajv1 = Inl (DuplicateSchema [])"
proof -
  from addSchema_string_schema_ok obtain ajv1 where
    f: "addSchema example_collab string_schema None None JUndefined example_ajv = Inr ajv1" ..
  have n: "\<not> is_array string_schema" by (simp add: string_schema_def)
  have i: "schema_id string_schema = Inr None"
    by (simp add: schema_id_def string_schema_def bindE_def)
  from f n have "addSchema_single example_collab string_schema None None
      (if JUndefined = JUndefined then opt_validateSchema (opts example_ajv) else JUndefined)
      example_ajv = Inr ajv1"
    by (simp add: addSchema_not_array)
  from addSchema_single_registers [OF this] i obtain a where
    "map_of (schemas ajv1) (normalizeId example_collab (key_or_id None None)) = Some (Env a)"
    by auto
  from addSchema_single_duplicate [OF i this] n
  have "addSchema example_collab string_schema None None JUndefined ajv1 = Inl (DuplicateSchema [])"
    by (simp add: addSchema_not_array key_or_id_def example_collab_def)
  with f i show ?thesis by blast
qed

theorem addSchema_twice_duplicate_witness:
  "\<not> is_array named_schema \<and>
   (\<exists>ajv1. addSchema example_collab named_schema None None JUndefined example_ajv = Inr ajv1 \<and>
      addSchema example_collab named_schema None None JUndefined ajv1 =
        Inl (DuplicateSchema ''http://example.com/named''))"
proof -
  from addSchema_named_schema_ok obtain ajv1 where
    f: "addSchema example_collab named_schema None None JUndefined example_ajv = Inr ajv1" ..
  have n: "\<not> is_array named_schema" by (simp add: named_schema_def)
  from addSchema_twice_duplicate [OF n f, of None JUndefined]
  have "addSchema example_collab named_schema None None JUndefined ajv1 =
        Inl (DuplicateSchema ''http://example.com/named'')"
    by (simp add: schema_id_def named_schema_def bindE_def key_or_id_def example_collab_def)
  with f n show ?thesis by blast
qed

subsection \<open>Compiling a schema twice\<close>

lemma keeps_cache_refl [simp]: "keeps_cache ajv ajv"
  by (simp add: keeps_cache_def)

lemma keeps_cache_trans: "keeps_cache a b \<Longrightarrow> keeps_cache b c \<Longrightarrow> keeps_cache a c"
  by (simp add: keeps_cache_def)

lemma keeps_cache_same: "cache ajv' = cache ajv \<Longrightarrow> keeps_cache ajv ajv'"
  by (simp add: keeps_cache_def cache_get_def)

lemma keeps_cache_same_left: "cache ajv' = cache ajv \<Longrightarrow> keeps_cache ajv' x \<Longrightarrow> keeps_cache ajv x"
  by (simp add: keeps_cache_def cache_get_def)

lemma collab_compile_keeps:
  "collab_keeps_cache c \<Longrightarrow> compileSchema c ajv a = Inr ajv' \<Longrightarrow> keeps_cache ajv ajv'"
  unfolding collab_keeps_cache_def by blast

lemma collab_validate_keeps:
  "collab_keeps_cache c \<Longrightarrow> run_validate c ajv s d = Inr (r, ajv') \<Longrightarrow> keeps_cache ajv ajv'"
  unfolding collab_keeps_cache_def by blast

lemma collab_getSchema_keeps:
  "collab_keeps_cache c \<Longrightarrow> run_getSchema c ajv k = Inr (r, ajv') \<Longrightarrow> keeps_cache ajv ajv'"
  unfolding collab_keeps_cache_def by blast

lemma defaultMeta_keeps_cache:
  assumes "collab_keeps_cache c" "defaultMeta c ajv = Inr (v, ajv')"
  shows "keeps_cache ajv ajv'"
proof (cases "typeof_object (opt_meta (opts ajv))")
  case True
  with assms(2) show ?thesis
    by (auto simp: defaultMeta_def Let_def bindE_Inr_iff intro: keeps_cache_same)
next
  case False
  with assms(2) obtain found ajv1 where
    g: "run_getSchema c ajv META_SCHEMA_ID = Inr (found, ajv1)" and "cache ajv' = cache ajv1"
    by (auto simp: defaultMeta_def Let_def bindE_Inr_iff)
  moreover from assms(1) g have "keeps_cache ajv ajv1"
    by (rule collab_getSchema_keeps)
  ultimately show ?thesis
    by (simp add: keeps_cache_def cache_get_def)
qed

lemma meta_schema_ref_keeps_cache:
  "collab_keeps_cache c \<Longrightarrow> meta_schema_ref c s1 ajv = Inr (s2, ajv1) \<Longrightarrow> keeps_cache ajv ajv1"
  by (auto simp: meta_schema_ref_def split: if_splits dest: defaultMeta_keeps_cache)

lemma validateSchema_report_cache:
  "validateSchema_report valid t ajv = Inr (r, ajv') \<Longrightarrow> cache ajv' = cache ajv"
  by (auto simp: validateSchema_report_def Let_def log_error_def split: if_splits)

lemma validateSchema_keeps_cache:
  assumes c: "collab_keeps_cache c" and v: "validateSchema c s t ajv = Inr (r, ajv')"
  shows "keeps_cache ajv ajv'"
proof (cases "typeof_boolean s")
  case True
  with v show ?thesis by (simp add: validateSchema_def)
next
  case False
  with v have "bindE (get_prop s ''$schema'') (\<lambda>s1.
          if s1 \<noteq> JUndefined \<and> \<not> is_string s1 then Inl MetaSchemaMustBeString
          else
            bindE (meta_schema_ref c s1 ajv) (\<lambda>(s2, ajv1).
              if \<not> js_truthy s2
              then Inr (True, (warn ''meta-schema not available'' ajv1)\<lparr>errors := Null\<rparr>)
              else
                bindE (run_validate c ajv1 s2 s) (\<lambda>(valid, ajv2).
                  validateSchema_report valid t ajv2))) = Inr (r, ajv')"
    by (simp add: validateSchema_def)
  then obtain s1 where
    "(if s1 \<noteq> JUndefined \<and> \<not> is_string s1 then Inl MetaSchemaMustBeString
          else
            bindE (meta_schema_ref c s1 ajv) (\<lambda>(s2, ajv1).
              if \<not> js_truthy s2
              then Inr (True, (warn ''meta-schema not available'' ajv1)\<lparr>errors := Null\<rparr>)
              else
                bindE (run_validate c ajv1 s2 s) (\<lambda>(valid, ajv2).
                  validateSchema_report valid t ajv2))) = Inr (r, ajv')"
    by (rule bindE_InrE)
  then have "bindE (meta_schema_ref c s1 ajv) (\<lambda>(s2, ajv1).
              if \<not> js_truthy s2
              then Inr (True, (warn ''meta-schema not available'' ajv1)\<lparr>errors := Null\<rparr>)
              else
                bindE (run_validate c ajv1 s2 s) (\<lambda>(valid, ajv2).
                  validateSchema_report valid t ajv2)) = Inr (r, ajv')"
    by (simp split: if_splits)
  then obtain s2 ajv1 where
    m: "meta_schema_ref c s1 ajv = Inr (s2, ajv1)" and
    rest: "(if \<not> js_truthy s2
            then Inr (True, (warn ''meta-schema not available'' ajv1)\<lparr>errors := Null\<rparr>)
            else bindE (run_validate c ajv1 s2 s) (\<lambda>(valid, ajv2).
                  validateSchema_report valid t ajv2)) = Inr (r, ajv')"
    by (rule bindE_Inr_pairE)
  from c m have k1: "keeps_cache ajv ajv1"
    by (rule meta_schema_ref_keeps_cache)
  have k2: "keeps_cache ajv1 ajv'"
  proof (cases "js_truthy s2")
    case False
    with rest show ?thesis by (auto simp: warn_def intro: keeps_cache_same)
  next
    case True
    with rest have "bindE (run_validate c ajv1 s2 s) (\<lambda>(valid, ajv2).
                  validateSchema_report valid t ajv2) = Inr (r, ajv')" by simp
    then obtain valid ajv2 where
      rv: "run_validate c ajv1 s2 s = Inr (valid, ajv2)" and
      rp: "validateSchema_report valid t ajv2 = Inr (r, ajv')"
      by (rule bindE_Inr_pairE)
    from c rv have "keeps_cache ajv1 ajv2"
      by (rule collab_validate_keeps)
    with validateSchema_report_cache [OF rp] show ?thesis
      by (simp add: keeps_cache_def cache_get_def)
  qed
  from k1 k2 show ?thesis by (rule keeps_cache_trans)
qed

lemma validate_added_keeps_cache:
  "collab_keeps_cache c \<Longrightarrow> validate_added c vs s ajv = Inr ajv' \<Longrightarrow> keeps_cache ajv ajv'"
  by (auto simp: validate_added_def bindE_Inr_iff split: if_splits dest: validateSchema_keeps_cache)

lemma register_ref_cache:
  "register_ref add a i ajv = Inr ajv' \<Longrightarrow> cache ajv' = cache ajv"
  by (auto simp: register_ref_def bindE_Inr_iff split: if_splits)

lemma private_addSchema_hit:
  "cache_get ajv (serialize c s) = Some a \<Longrightarrow> typeof_object s \<or> typeof_boolean s \<Longrightarrow>
   private_addSchema c s m vs add ajv = Inr (a, ajv)"
  by (auto simp: private_addSchema_def Let_def)

lemma private_addSchema_cached:
  assumes c: "collab_keeps_cache c" and r: "private_addSchema c s m vs add ajv = Inr (a, ajv1)"
  shows "cache_get ajv1 (serialize c s) = Some a \<and> (typeof_object s \<or> typeof_boolean s)"
proof -
  from r have ty: "typeof_object s \<or> typeof_boolean s"
    by (auto simp: private_addSchema_def Let_def split: if_splits)
  show ?thesis
  proof (cases "cache_get ajv (serialize c s)")
    case (Some b)
    with r ty show ?thesis by (auto simp: private_addSchema_def Let_def)
  next
    case None
    define vs1 where "vs1 = (if vs = JUndefined then opt_validateSchema (opts ajv) else vs)"
    define add1 where "add1 = (if add = JUndefined then opt_addUsedSchema (opts ajv) else add)"
    from r None ty obtain lr ajv2 where
      rr: "register_ref add1 (length (store ajv)) (baseId_of c s)
            (cache_put (serialize c s) (length (store ajv))
               (ajv\<lparr>store := store ajv @
                  [\<lparr>schema = s, cacheKey = serialize c s, baseId = baseId_of c s,
                    localRefs = lr, meta = m, validate = None\<rparr>]\<rparr>)) = Inr ajv2" and
      va: "validate_added c vs1 s ajv2 = Inr ajv1" and a: "a = length (store ajv)"
      by (auto simp: private_addSchema_def Let_def bindE_Inr_iff vs1_def add1_def)
    from register_ref_cache [OF rr]
    have "cache_get ajv2 (serialize c s) = Some a"
      by (simp add: cache_get_def cache_put_def a update_conv')
    with validate_added_keeps_cache [OF c va] ty show ?thesis
      by (simp add: keeps_cache_def)
  qed
qed

lemma private_compileMetaSchema_keeps_cache:
  "collab_keeps_cache c \<Longrightarrow> private_compileMetaSchema c a ajv = Inr ajv1 \<Longrightarrow> keeps_cache ajv ajv1"
  by (auto simp: private_compileMetaSchema_def Let_def bindE_Inr_iff keeps_cache_def cache_get_def
      dest!: collab_compile_keeps)

lemma private_compileSchemaEnv_result:
  assumes c: "collab_keeps_cache c" and r: "private_compileSchemaEnv c a ajv = Inr (v, ajv1)"
  shows "keeps_cache ajv ajv1 \<and> (\<exists>env. env_at ajv1 a = Some env \<and> validate env = Some v)"
proof -
  from r obtain env where e: "env_at ajv a = Some env"
    by (auto simp: private_compileSchemaEnv_def split: option.splits)
  with r obtain ajv2 where
    st: "(if meta env = Some True then private_compileMetaSchema c a ajv
          else compileSchema c ajv a) = Inr ajv2" and
    fin: "(case env_at ajv2 a of
              None \<Rightarrow> Inl ImplementationError
            | Some env1 \<Rightarrow>
                (case validate env1 of
                   None \<Rightarrow> Inl ImplementationError
                 | Some v \<Rightarrow> Inr (v, ajv2))) = Inr (v, ajv1)"
    by (auto simp: private_compileSchemaEnv_def bindE_Inr_iff)
  from fin have "ajv1 = ajv2" and "\<exists>env. env_at ajv1 a = Some env \<and> validate env = Some v"
    by (auto split: option.splits)
  moreover from st c have "keeps_cache ajv ajv2"
    by (auto split: if_splits dest: private_compileMetaSchema_keeps_cache collab_compile_keeps)
  ultimately show ?thesis by simp
qed

text \<open>
  Claim C2. When \<^verbatim>\<open>compile(s)\<close> returns a validator \<open>v\<close>, a second \<^verbatim>\<open>compile(s)\<close> on the
  instance it left returns the same validator \<open>v\<close> and changes nothing: the cache maps
  the serialised schema to one environment, and that environment holds \<open>v\<close>. The absent
  code (compiler, meta-schema validation, resolver) is any code that removes no line of
  the cache.
\<close>

theorem compile_twice_same_validator:
  assumes c: "collab_keeps_cache c" and r: "compile c s m ajv = Inr (v, ajv1)"
  shows "compile c s m' ajv1 = Inr (v, ajv1) \<and>
         (\<exists>a env. cache_get ajv1 (serialize c s) = Some a \<and> env_at ajv1 a = Some env \<and>
                   validate env = Some v)"
proof -
  from r obtain a ajv2 where
    ad: "private_addSchema c s m JUndefined JUndefined ajv = Inr (a, ajv2)" and
    co: "(case env_at ajv2 a of
            None \<Rightarrow> Inl ImplementationError
          | Some env \<Rightarrow>
              (case validate env of
                 Some v \<Rightarrow> Inr (v, ajv2)
               | None \<Rightarrow> private_compileSchemaEnv c a ajv2)) = Inr (v, ajv1)"
    by (auto simp: compile_def bindE_Inr_iff)
  from private_addSchema_cached [OF c ad]
  have ca: "cache_get ajv2 (serialize c s) = Some a" and ty: "typeof_object s \<or> typeof_boolean s"
    by simp_all
  from co obtain env where e: "env_at ajv2 a = Some env"
    by (auto split: option.splits)
  have "cache_get ajv1 (serialize c s) = Some a \<and>
        (\<exists>env. env_at ajv1 a = Some env \<and> validate env = Some v)"
  proof (cases "validate env")
    case (Some w)
    with co e ca show ?thesis by auto
  next
    case None
    with co e have "private_compileSchemaEnv c a ajv2 = Inr (v, ajv1)" by simp
    from private_compileSchemaEnv_result [OF c this] ca show ?thesis
      by (simp add: keeps_cache_def)
  qed
  then obtain env1 where ca1: "cache_get ajv1 (serialize c s) = Some a"
    and e1: "env_at ajv1 a = Some env1" and v1: "validate env1 = Some v" by blast
  from private_addSchema_hit [OF ca1 ty]
  have "compile c s m' ajv1 = Inr (v, ajv1)"
    by (simp add: compile_def bindE_def e1 v1)
  with ca1 e1 v1 show ?thesis by blast
qed

lemma example_collab_keeps_cache: "collab_keeps_cache example_collab"
  by (simp add: collab_keeps_cache_def example_collab_def keeps_cache_def cache_get_def)

lemma compile_example_ok:
  "\<exists>v ajv1. compile example_collab string_schema None example_ajv = Inr (v, ajv1)"
  by (simp add: compile_def private_compileSchemaEnv_def env_at_def example_defs addSchema_defs)

theorem compile_twice_same_validator_witness:
  "collab_keeps_cache example_collab \<and>
   (\<exists>v ajv1. compile example_collab string_schema None example_ajv = Inr (v, ajv1) \<and>
      compile example_collab string_schema None ajv1 = Inr (v, ajv1))"
proof -
  from compile_example_ok obtain v ajv1 where
    r: "compile example_collab string_schema None example_ajv = Inr (v, ajv1)" by blast
  from compile_twice_same_validator [OF example_collab_keeps_cache r, of None]
  have "compile example_collab string_schema None ajv1 = Inr (v, ajv1)" by simp
  with r example_collab_keeps_cache show ?thesis by blast
qed

subsection \<open>Rule order\<close>


lemma findIndex_SomeD:
  "findIndex P xs = Some i \<Longrightarrow> i < length xs \<and> P (xs ! i) \<and> (\<forall>j<i. \<not> P (xs ! j))"
proof (induction xs arbitrary: i)
  case Nil
  then show ?case by simp
next
  case (Cons x xs)
  show ?case
  proof (cases "P x")
    case True
    with Cons.prems show ?thesis by simp
  next
    case False
    with Cons.prems obtain k where k: "findIndex P xs = Some k" and i: "i = Suc k"
      by (auto split: option.splits)
    from Cons.IH [OF k] have "k < length xs" "P (xs ! k)" "\<forall>j<k. \<not> P (xs ! j)" by simp_all
    with False i show ?thesis
      by (auto simp: nth_Cons split: nat.splits)
  qed
qed




text \<open>
  \<^verbatim>\<open>addRule\<close> reaches \<^verbatim>\<open>addBeforeRule\<close> with the group of the data type whenever the hint
  of the definition is truthy, a non-empty string. (An empty string as the hint is no
  hint for \<^verbatim>\<open>addRule\<close>: the rule is pushed and nothing is logged.)
\<close>

lemma addRule_before_hint:
  assumes "before_hint d = Some X" "implied_keywords d = []"
    and "find_or_add_group ty (RULES ajv) = (gi, R1)"
  shows "\<exists>ajv'. addRule rec kw ty (Some d) ajv = Inr ajv' \<and> gi < length (RULES_rules (RULES ajv')) \<and>
     (RULES_rules (RULES ajv') ! gi, logger ajv') =
       addBeforeRule (RULES_rules R1 ! gi) \<lparr>rule_keyword = kw, rule_definition = d\<rparr> X (logger ajv)"
proof -
  from assms(3) have gi: "gi < length (RULES_rules R1)"
    by (auto simp: find_or_add_group_def split: option.splits dest: findIndex_SomeD)
  obtain g1 lg where ab: "addBeforeRule (RULES_rules R1 ! gi) \<lparr>rule_keyword = kw, rule_definition = d\<rparr> X (logger ajv) = (g1, lg)"
    by (cases "addBeforeRule (RULES_rules R1 ! gi) \<lparr>rule_keyword = kw, rule_definition = d\<rparr> X (logger ajv)")
  from assms(1,2) gi ab show ?thesis
    by (auto simp: addRule_def assms(3) Let_def)
qed

subsection \<open>Keyword names\<close>

lemma check_name_Inr_iff:
  "check_name R k = Inr u \<longleftrightarrow> \<not> keyword_registered R k \<and> KEYWORD_NAME k"
  by (auto simp: check_name_def)

lemma check_name_Inl:
  "keyword_registered R k \<or> \<not> KEYWORD_NAME k \<Longrightarrow>
   check_name R k = Inl (if keyword_registered R k then KeywordAlreadyDefined k else KeywordInvalidName k)"
  by (auto simp: check_name_def)

lemma find_or_add_group_keywords [simp]:
  "RULES_keywords (snd (find_or_add_group ty R)) = RULES_keywords R"
  by (simp add: find_or_add_group_def split: option.splits)

lemma addRule_no_definition:
  "addRule f k ty None ajv =
     Inr (ajv\<lparr>RULES := (snd (find_or_add_group ty (RULES ajv)))
                 \<lparr>RULES_keywords := AList.update k True (RULES_keywords (RULES ajv))\<rparr>\<rparr>)"
proof -
  obtain gi R1 where g: "find_or_add_group ty (RULES ajv) = (gi, R1)"
    by (cases "find_or_add_group ty (RULES ajv)")
  then have "RULES_keywords R1 = RULES_keywords (RULES ajv)"
    using find_or_add_group_keywords [of ty "RULES ajv"] by simp
  with g show ?thesis by (simp add: addRule_def Let_def)
qed

lemma addKeyword_with_name:
  "addKeyword_with f c (KString k) None ajv =
     (case check_name (RULES ajv) k of
        Inl e \<Rightarrow> Inl e
      | Inr u \<Rightarrow>
          Inr (ajv\<lparr>RULES := (snd (find_or_add_group None (RULES ajv)))
                      \<lparr>RULES_keywords := AList.update k True (RULES_keywords (RULES ajv))\<rparr>\<rparr>))"
  by (simp add: addKeyword_with_def addKeyword_args_def checkKeyword_def bindE_def def_types_def
      addRule_no_definition split: sum.splits)

text \<open>The method called with a name alone is the inner call.\<close>

lemma addKeyword_name_only: "addKeyword c (KString k) None ajv = addKeyword_implied c k ajv"
  by (simp add: addKeyword_def addKeyword_implied_def addKeyword_with_name)

lemma registered_after_update:
  "keyword_registered (R\<lparr>RULES_keywords := AList.update k True (RULES_keywords R0)\<rparr>) k' \<longleftrightarrow>
     k' = k \<or> keyword_registered R0 k'"
  by (auto simp: keyword_registered_def update_conv')

lemma addKeyword_implied_ok:
  assumes "\<not> keyword_registered (RULES ajv) k" "KEYWORD_NAME k"
  shows "\<exists>ajv'. addKeyword_implied c k ajv = Inr ajv' \<and>
           (\<forall>k'. keyword_registered (RULES ajv') k' \<longleftrightarrow> k' = k \<or> keyword_registered (RULES ajv) k')"
  using assms
  by (simp add: addKeyword_implied_def addKeyword_with_name check_name_def registered_after_update)

lemma implied_all_ok:
  "distinct ks \<Longrightarrow> \<forall>k'\<in>set ks. KEYWORD_NAME k' \<and> \<not> keyword_registered (RULES ajv) k' \<Longrightarrow>
   \<exists>ajv'. forE (addKeyword_implied c) ks ajv = Inr ajv'"
proof (induction ks arbitrary: ajv)
  case Nil
  then show ?case by simp
next
  case (Cons k ks)
  then have "\<not> keyword_registered (RULES ajv) k" "KEYWORD_NAME k" by simp_all
  from addKeyword_implied_ok [OF this, of c] obtain ajv1 where
    a: "addKeyword_implied c k ajv = Inr ajv1" and
    r: "\<And>k'. keyword_registered (RULES ajv1) k' \<longleftrightarrow> k' = k \<or> keyword_registered (RULES ajv) k'"
    by blast
  from Cons.prems r have "\<forall>k'\<in>set ks. KEYWORD_NAME k' \<and> \<not> keyword_registered (RULES ajv1) k'"
    by auto
  with Cons.IH [of ajv1] Cons.prems(1) a show ?case by simp
qed

lemma addRule_Some_eq:
  "\<exists>ajv1. addRule f k ty (Some d) ajv = forE f (implied_keywords d) ajv1 \<and>
     (\<forall>k'. keyword_registered (RULES ajv1) k' \<longleftrightarrow> k' = k \<or> keyword_registered (RULES ajv) k')"
proof -
  obtain gi R1 where g: "find_or_add_group ty (RULES ajv) = (gi, R1)"
    by (cases "find_or_add_group ty (RULES ajv)")
  then have k: "RULES_keywords R1 = RULES_keywords (RULES ajv)"
    using find_or_add_group_keywords [of ty "RULES ajv"] by simp
  obtain g1 lg where b:
    "(case before_hint d of
        Some b \<Rightarrow>
          addBeforeRule
            (RULES_rules (R1\<lparr>RULES_keywords := AList.update k True (RULES_keywords R1)\<rparr>) ! gi)
            \<lparr>rule_keyword = k, rule_definition = d\<rparr> b (logger ajv)
      | None \<Rightarrow>
          ((RULES_rules (R1\<lparr>RULES_keywords := AList.update k True (RULES_keywords R1)\<rparr>) ! gi)
             \<lparr>group_rules :=
                group_rules
                  (RULES_rules (R1\<lparr>RULES_keywords := AList.update k True (RULES_keywords R1)\<rparr>) ! gi) @
                [\<lparr>rule_keyword = k, rule_definition = d\<rparr>]\<rparr>,
           logger ajv)) = (g1, lg)"
    by (rule prod.exhaust)
  have "addRule f k ty (Some d) ajv =
        forE f (implied_keywords d)
          (ajv\<lparr>RULES := R1\<lparr>RULES_keywords := AList.update k True (RULES_keywords R1),
                              RULES_rules := (RULES_rules R1)[gi := g1],
                              RULES_all := AList.update k (IsRule \<lparr>rule_keyword = k, rule_definition = d\<rparr>)
                                             (RULES_all R1)\<rparr>,
                 logger := lg\<rparr>)"
    unfolding addRule_def g Let_def prod.case option.case b by simp
  moreover have "keyword_registered
      (R1\<lparr>RULES_keywords := AList.update k True (RULES_keywords R1),
           RULES_rules := (RULES_rules R1)[gi := g1],
           RULES_all := AList.update k (IsRule \<lparr>rule_keyword = k, rule_definition = d\<rparr>) (RULES_all R1)\<rparr>) k'
      \<longleftrightarrow> k' = k \<or> keyword_registered (RULES ajv) k'" for k'
    by (auto simp: keyword_registered_def update_conv' k)
  ultimately show ?thesis by auto
qed

lemma addRule_ok_no_implied:
  "implied_keywords d = [] \<Longrightarrow> \<exists>ajv'. addRule f k ty (Some d) ajv = Inr ajv' \<and>
     (\<forall>k'. keyword_registered (RULES ajv') k' \<longleftrightarrow> k' = k \<or> keyword_registered (RULES ajv) k')"
  using addRule_Some_eq [of f k ty d ajv] by auto

lemma addRule_ok_implied:
  assumes "distinct (implied_keywords d)"
    "list_all (\<lambda>k'. KEYWORD_NAME k' \<and> \<not> keyword_registered (RULES ajv) k' \<and> k' \<noteq> k) (implied_keywords d)"
  shows "\<exists>ajv'. addRule (addKeyword_implied c) k ty (Some d) ajv = Inr ajv'"
proof -
  from addRule_Some_eq [of "addKeyword_implied c" k ty d ajv] obtain ajv1 where
    e: "addRule (addKeyword_implied c) k ty (Some d) ajv = forE (addKeyword_implied c) (implied_keywords d) ajv1"
    and r: "\<And>k'. keyword_registered (RULES ajv1) k' \<longleftrightarrow> k' = k \<or> keyword_registered (RULES ajv) k'"
    by blast
  from assms(2) r have "\<forall>k'\<in>set (implied_keywords d). KEYWORD_NAME k' \<and> \<not> keyword_registered (RULES ajv1) k'"
    by (auto simp: list_all_iff)
  from implied_all_ok [OF assms(1) this, of c] e show ?thesis by simp
qed

lemma types_loop_ok_no_implied:
  "implied_keywords d = [] \<Longrightarrow> \<exists>ajv'. forE (\<lambda>t. addRule f k t (Some d)) ts ajv = Inr ajv'"
proof (induction ts arbitrary: ajv)
  case Nil
  then show ?case by simp
next
  case (Cons t ts)
  from addRule_ok_no_implied [OF Cons.prems, of f k t ajv] obtain ajv1 where
    "addRule f k t (Some d) ajv = Inr ajv1" by blast
  with Cons.IH [OF Cons.prems, of ajv1] show ?case by simp
qed

lemma types_loop_ok:
  assumes "implements_ok k d ajv" "length ts \<le> 1 \<or> implied_keywords d = []"
    "implied_keywords d \<noteq> [] \<longrightarrow> length ts \<le> 1"
  shows "\<exists>ajv'. forE (\<lambda>t. addRule (addKeyword_implied c) k t (Some d)) ts ajv = Inr ajv'"
proof (cases "implied_keywords d = []")
  case True
  then show ?thesis by (rule types_loop_ok_no_implied)
next
  case False
  with assms have l: "length ts \<le> 1" and di: "distinct (implied_keywords d)" and
    la: "list_all (\<lambda>k'. KEYWORD_NAME k' \<and> \<not> keyword_registered (RULES ajv) k' \<and> k' \<noteq> k) (implied_keywords d)"
    by (simp_all add: implements_ok_def)
  show ?thesis
  proof (cases ts)
    case Nil
    then show ?thesis by simp
  next
    case (Cons t ts')
    with l have "ts = [t]" by simp
    with addRule_ok_implied [OF di la, of c t] show ?thesis by (auto split: sum.splits)
  qed
qed

lemma keywordMetaschema_shape:
  "keywordMetaschema c d ajv = Inr (d1, ajv1) \<Longrightarrow>
   implied_keywords d1 = implied_keywords d \<and> def_types (Some d1) = def_types (Some d)"
  by (auto simp: keywordMetaschema_def Let_def bindE_Inr_iff implied_keywords_def def_types_def
      split: option.splits)

lemma forE_checks_ok:
  "list_all P ts \<Longrightarrow> forE (\<lambda>t _. if P t then Inr () else Inl (g t)) ts () = Inr ()"
  by (induction ts) simp_all

lemma checkKeyword_valid:
  assumes "types_ok c d ajv" "def_data d \<longrightarrow> def_code d \<or> def_validate d"
  shows "checkKeyword c (One k) (Some d) ajv = check_name (RULES ajv) k"
proof (cases "check_name (RULES ajv) k")
  case (Inl e)
  then show ?thesis by (simp add: checkKeyword_def bindE_def)
next
  case (Inr u)
  have "(case def_type d of
           None \<Rightarrow> Inr ()
         | Some ts \<Rightarrow>
             if type_truthy (Some ts)
             then forE (\<lambda>t _. if checkType c t (RULES ajv) then Inr () else Inl (UnknownType t))
                    (eachItem ts) ()
             else Inr ()) = Inr ()"
    using assms(1) by (auto simp: types_ok_def forE_checks_ok split: option.splits)
  with Inr assms(2) show ?thesis
    by (auto simp: checkKeyword_def bindE_def)
qed

lemma addKeyword_definition_fails:
  assumes "def_keyword d = One k" "keyword_registered (RULES ajv) k \<or> \<not> KEYWORD_NAME k"
  shows "addKeyword c (KDef d) None ajv =
           Inl (if keyword_registered (RULES ajv) k then KeywordAlreadyDefined k
                else KeywordInvalidName k)"
  using assms check_name_Inl [of "RULES ajv" k]
  by (simp add: addKeyword_def addKeyword_with_def addKeyword_args_def bindE_def checkKeyword_def)

lemma addKeyword_definition_ok:
  assumes dk: "def_keyword d = One k" and ov: "otherwise_valid c k d ajv"
    and fresh: "\<not> keyword_registered (RULES ajv) k" and name: "KEYWORD_NAME k"
  shows "\<exists>ajv'. addKeyword c (KDef d) None ajv = Inr ajv'"
proof -
  from ov have ty: "types_ok c d ajv" and da: "def_data d \<longrightarrow> def_code d \<or> def_validate d"
    and ms: "metaSchema_ok c d ajv" and im: "implements_ok k d ajv"
    by (simp_all add: otherwise_valid_def)
  from fresh name have "check_name (RULES ajv) k = Inr ()"
    by (simp add: check_name_def)
  with checkKeyword_valid [OF ty da, of k] have ck: "checkKeyword c (One k) (Some d) ajv = Inr ()"
    by simp
  from ms obtain d1 ajv1 where km: "keywordMetaschema c d ajv = Inr (d1, ajv1)"
    and ru: "RULES ajv1 = RULES ajv"
    by (auto simp: metaSchema_ok_def split: sum.splits)
  from keywordMetaschema_shape [OF km]
  have ik: "implied_keywords d1 = implied_keywords d" and dt: "def_types (Some d1) = def_types (Some d)"
    by simp_all
  from im ik dt ru have im1: "implements_ok k d1 ajv1"
    by (simp add: implements_ok_def)
  from im ik dt have "implied_keywords d1 \<noteq> [] \<longrightarrow> length (def_types (Some d1)) \<le> 1"
    by (auto simp: implements_ok_def)
  with types_loop_ok [OF im1, of "def_types (Some d1)" c] obtain ajv2 where
    "forE (\<lambda>t. addRule (addKeyword_implied c) k t (Some d1)) (def_types (Some d1)) ajv1 = Inr ajv2"
    by auto
  with dk ck km show ?thesis
    by (simp add: addKeyword_def addKeyword_with_def addKeyword_args_def bindE_def)
qed

lemma keyword_registered_own:
  "k \<notin> set object_prototype_names \<Longrightarrow> keyword_registered R k = own_registered R k"
  by (auto simp: keyword_registered_def own_registered_def split: option.splits)

text \<open>
  Claim C8, as the code has it. For a definition of one keyword \<open>k\<close> that is valid apart
  from the name, where \<open>k\<close> is not one of the names that every object inherits,
  \<^verbatim>\<open>addKeyword\<close> throws if and only if \<open>k\<close> is registered in \<^verbatim>\<open>RULES.keywords\<close> or does not
  match \<^verbatim>\<open>KEYWORD_NAME\<close>, the pattern with the flag \<^verbatim>\<open>i\<close>: a first character that is a
  letter of either case, an underscore or a dollar sign, then letters of either case,
  digits, underscores, dollar signs and hyphens. The error is the already-defined error
  for a registered name and the invalid-name error otherwise; a fresh name that matches
  is added without an error.
\<close>

theorem addKeyword_throws_iff:
  assumes "def_keyword d = One k" "otherwise_valid c k d ajv" "k \<notin> set object_prototype_names"
  shows "(isl (addKeyword c (KDef d) None ajv) \<longleftrightarrow>
            own_registered (RULES ajv) k \<or> \<not> KEYWORD_NAME k) \<and>
         (\<forall>e. addKeyword c (KDef d) None ajv = Inl e \<longrightarrow>
            e = (if own_registered (RULES ajv) k then KeywordAlreadyDefined k
                 else KeywordInvalidName k))"
proof (cases "keyword_registered (RULES ajv) k \<or> \<not> KEYWORD_NAME k")
  case True
  from addKeyword_definition_fails [OF assms(1) True, of c] True
    keyword_registered_own [OF assms(3), of "RULES ajv"]
  show ?thesis by auto
next
  case False
  with addKeyword_definition_ok [OF assms(1,2)] obtain ajv' where
    "addKeyword c (KDef d) None ajv = Inr ajv'" by auto
  with False keyword_registered_own [OF assms(3), of "RULES ajv"] show ?thesis by auto
qed

lemma example_def_valid: "otherwise_valid example_collab k (example_def k) example_ajv"
  by (simp add: otherwise_valid_def types_ok_def metaSchema_ok_def implements_ok_def
      implied_keywords_def keywordMetaschema_def example_def_def example_collab_def)

lemma KEYWORD_NAME_Range: "KEYWORD_NAME ''Range''"
  by (simp add: KEYWORD_NAME_def name_start_def name_rest_def is_lower_def is_upper_def is_digit_def
      less_eq_char_def)

text \<open>
  With the pattern as the spec writes it, lower case only, the claim fails: the fresh name
  \<open>Range\<close> does not match that pattern, and \<^verbatim>\<open>addKeyword\<close> accepts it.
\<close>

theorem addKeyword_pattern_counterexample:
  "otherwise_valid example_collab ''Range'' (example_def ''Range'') example_ajv \<and>
   \<not> keyword_registered (RULES example_ajv) ''Range'' \<and>
   \<not> spec_keyword_pattern ''Range'' \<and>
   \<not> isl (addKeyword example_collab (KDef (example_def ''Range'')) None example_ajv)"
proof -
  have f: "\<not> keyword_registered (RULES example_ajv) ''Range''"
    by (simp add: keyword_registered_def example_ajv_def object_prototype_names_def)
  have d: "def_keyword (example_def ''Range'') = One ''Range''"
    by (simp add: example_def_def)
  have "\<not> spec_keyword_pattern ''Range''"
    by (simp add: spec_keyword_pattern_def is_lower_def less_eq_char_def)
  moreover from addKeyword_definition_ok [OF d example_def_valid f KEYWORD_NAME_Range]
  have "\<not> isl (addKeyword example_collab (KDef (example_def ''Range'')) None example_ajv)"
    by auto
  ultimately show ?thesis using example_def_valid f by simp
qed

text \<open>
  A name that the registry inherits is left out above: it reads as already defined
  although it is fresh and well-formed.
\<close>

lemma addKeyword_inherited_name:
  "own_registered (RULES example_ajv) ''constructor'' = False \<and>
   KEYWORD_NAME ''constructor'' \<and>
   addKeyword example_collab (KDef (example_def ''constructor'')) None example_ajv =
     Inl (KeywordAlreadyDefined ''constructor'')"
proof -
  have "keyword_registered (RULES example_ajv) ''constructor''"
    by (simp add: keyword_registered_def example_ajv_def object_prototype_names_def)
  moreover have "def_keyword (example_def ''constructor'') = One ''constructor''"
    by (simp add: example_def_def)
  ultimately have "addKeyword example_collab (KDef (example_def ''constructor'')) None example_ajv =
     Inl (KeywordAlreadyDefined ''constructor'')"
    using addKeyword_definition_fails [of "example_def ''constructor''" "''constructor''"
        example_ajv example_collab]
    by simp
  moreover have "KEYWORD_NAME ''constructor''"
    by (simp add: KEYWORD_NAME_def name_start_def name_rest_def is_lower_def is_upper_def
        is_digit_def less_eq_char_def)
  ultimately show ?thesis by (simp add: own_registered_def example_ajv_def)
qed

text \<open>
  So is a definition with an implied keyword and two data types: \<^verbatim>\<open>addRule\<close> runs once for
  each type and registers the implied keyword each time, so the second registration
  throws, for the fresh and well-formed names \<open>even\<close> and \<open>odd\<close>.
\<close>

lemma addKeyword_implied_twice:
  "addKeyword example_collab
     (KDef ((example_def ''even'')\<lparr>def_type := Some (Many [''number'', ''string'']),
                                    def_implements := Some [''odd'']\<rparr>)) None example_ajv =
     Inl (KeywordAlreadyDefined ''odd'')"
  by code_simp

theorem addKeyword_throws_iff_witness:
  "def_keyword (example_def ''Range'') = One ''Range'' \<and>
   otherwise_valid example_collab ''Range'' (example_def ''Range'') example_ajv \<and>
   ''Range'' \<notin> set object_prototype_names \<and>
   \<not> isl (addKeyword example_collab (KDef (example_def ''Range'')) None example_ajv) \<and>
   def_keyword (example_def ''2nd'') = One ''2nd'' \<and>
   otherwise_valid example_collab ''2nd'' (example_def ''2nd'') example_ajv \<and>
   ''2nd'' \<notin> set object_prototype_names \<and>
   addKeyword example_collab (KDef (example_def ''2nd'')) None example_ajv =
     Inl (KeywordInvalidName ''2nd'')"
proof -
  have f: "\<not> own_registered (RULES example_ajv) k" for k
    by (simp add: own_registered_def example_ajv_def)
  have d: "def_keyword (example_def k) = One k" for k
    by (simp add: example_def_def)
  have p1: "''Range'' \<notin> set object_prototype_names"
    by (simp add: object_prototype_names_def)
  have p2: "''2nd'' \<notin> set object_prototype_names"
    by (simp add: object_prototype_names_def)
  have n: "\<not> KEYWORD_NAME ''2nd''"
    by (simp add: KEYWORD_NAME_def name_start_def is_lower_def is_upper_def less_eq_char_def)
  from addKeyword_throws_iff [OF d example_def_valid p1] f KEYWORD_NAME_Range
  have a: "\<not> isl (addKeyword example_collab (KDef (example_def ''Range'')) None example_ajv)"
    by simp
  from addKeyword_throws_iff [OF d example_def_valid p2] f n
  have "isl (addKeyword example_collab (KDef (example_def ''2nd'')) None example_ajv)"
    and "\<forall>e. addKeyword example_collab (KDef (example_def ''2nd'')) None example_ajv = Inl e \<longrightarrow>
          e = KeywordInvalidName ''2nd''"
    by simp_all
  then have b: "addKeyword example_collab (KDef (example_def ''2nd'')) None example_ajv =
     Inl (KeywordInvalidName ''2nd'')"
    by (cases "addKeyword example_collab (KDef (example_def ''2nd'')) None example_ajv") auto
  from a b d example_def_valid p1 p2 show ?thesis by simp
qed

subsection \<open>The enum validator\<close>



text \<open>Numbers: the digits of a number end where the first other character stands.\<close>

declare show_nat.simps [simp del]




















































declare show_nat.simps [simp]

subsection \<open>Bulk removal\<close>

lemma entry_store [simp]: "store (remove_entry t k e ajv) = store ajv"
  by (cases t) (auto simp: remove_entry_def cache_del_def Let_def split: option.splits entry.splits)

lemma entry_other_table:
  "t' \<noteq> t \<Longrightarrow> get_table t' (remove_entry t k e ajv) = get_table t' ajv"
  by (cases t; cases t')
    (auto simp: remove_entry_def cache_del_def Let_def split: option.splits entry.splits)

lemma entry_cache_None:
  "map_of (cache ajv) ck = None \<Longrightarrow> map_of (cache (remove_entry t k e ajv)) ck = None"
  by (cases t)
    (auto simp: remove_entry_def cache_del_def Let_def delete_conv' split: option.splits entry.splits)

lemma entry_table_other_key:
  "k' \<noteq> k \<Longrightarrow> map_of (get_table t (remove_entry t k e ajv)) k' = map_of (get_table t ajv) k'"
  by (cases t)
    (auto simp: remove_entry_def cache_del_def Let_def split: option.splits entry.splits)

lemma entry_table_None:
  "map_of (get_table t ajv) k' = None \<Longrightarrow> map_of (get_table t (remove_entry t k e ajv)) k' = None"
  by (cases t)
    (auto simp: remove_entry_def cache_del_def Let_def delete_conv' split: option.splits entry.splits)

lemma entry_meta_kept:
  "map_of (get_table t ajv) k' = Some (Env a) \<Longrightarrow> env_at ajv a = Some env \<Longrightarrow> meta env = Some True \<Longrightarrow>
   map_of (get_table t ajv) k = Some e \<Longrightarrow>
   map_of (get_table t (remove_entry t k e ajv)) k' = Some (Env a)"
  by (cases t)
    (auto simp: remove_entry_def cache_del_def Let_def delete_conv' env_at_def
      split: option.splits entry.splits)

lemma entry_removes:
  "env_at ajv a = Some env \<Longrightarrow> meta env \<noteq> Some True \<Longrightarrow>
   map_of (get_table t (remove_entry t k (Env a) ajv)) k = None \<and>
   map_of (cache (remove_entry t k (Env a) ajv)) (cacheKey env) = None"
  by (cases t) (auto simp: remove_entry_def cache_del_def Let_def delete_conv' env_at_def)

lemma step_cases:
  "snd (removeAll_step t k st) = snd st \<or>
   (\<exists>e. map_of (get_table t (snd st)) k = Some e \<and>
        snd (removeAll_step t k st) = remove_entry t k e (snd st))"
  by (auto simp: removeAll_step_def split: option.splits prod.splits)

lemma step_store [simp]: "store (snd (removeAll_step t k st)) = store (snd st)"
  using step_cases [of t k st] by auto

lemma step_env_at [simp]: "env_at (snd (removeAll_step t k st)) a = env_at (snd st) a"
  by (simp add: env_at_def)

lemma step_other_table:
  "t' \<noteq> t \<Longrightarrow> get_table t' (snd (removeAll_step t k st)) = get_table t' (snd st)"
  using step_cases [of t k st] by (auto simp: entry_other_table)

lemma step_cache_None:
  "map_of (cache (snd st)) ck = None \<Longrightarrow> map_of (cache (snd (removeAll_step t k st))) ck = None"
  using step_cases [of t k st] by (auto simp: entry_cache_None)

lemma step_table_other_key:
  "k' \<noteq> k \<Longrightarrow>
   map_of (get_table t (snd (removeAll_step t k st))) k' = map_of (get_table t (snd st)) k'"
  using step_cases [of t k st] by (auto simp: entry_table_other_key)

lemma step_table_None:
  "map_of (get_table t (snd st)) k' = None \<Longrightarrow>
   map_of (get_table t (snd (removeAll_step t k st))) k' = None"
  using step_cases [of t k st] by (auto simp: entry_table_None)

lemma step_meta_kept:
  "map_of (get_table t (snd st)) k' = Some (Env a) \<Longrightarrow> env_at (snd st) a = Some env \<Longrightarrow>
   meta env = Some True \<Longrightarrow>
   map_of (get_table t (snd (removeAll_step t k st))) k' = Some (Env a)"
  using step_cases [of t k st] by (auto simp: entry_meta_kept)

lemma test_no_position:
  "\<not> re_stateful r \<Longrightarrow> regex_test r s = (re_exec r s 0 \<noteq> None, r)"
  by (simp add: regex_test_def)

lemma step_regex_kept:
  "keeps_no_position (fst st) \<Longrightarrow> fst (removeAll_step t k st) = fst st"
  by (cases st)
    (auto simp: removeAll_step_def keeps_no_position_def test_no_position split: option.splits)

lemma step_removes:
  assumes "map_of (get_table t (snd st)) k = Some (Env a)" "env_at (snd st) a = Some env"
    "meta env \<noteq> Some True" "keeps_no_position (fst st)" "pattern_matches (fst st) k"
  shows "map_of (get_table t (snd (removeAll_step t k st))) k = None \<and>
         map_of (cache (snd (removeAll_step t k st))) (cacheKey env) = None"
proof -
  from assms(1,4,5) have "snd (removeAll_step t k st) = remove_entry t k (Env a) (snd st)"
    by (cases st)
      (auto simp: removeAll_step_def keeps_no_position_def pattern_matches_def test_no_position
        split: option.splits)
  with entry_removes [OF assms(2,3)] show ?thesis by simp
qed

lemma fold_store [simp]: "store (snd (fold (removeAll_step t) ks st)) = store (snd st)"
  by (induction ks arbitrary: st) simp_all

lemma fold_env_at [simp]: "env_at (snd (fold (removeAll_step t) ks st)) a = env_at (snd st) a"
  by (simp add: env_at_def)

lemma fold_other_table:
  "t' \<noteq> t \<Longrightarrow> get_table t' (snd (fold (removeAll_step t) ks st)) = get_table t' (snd st)"
  by (induction ks arbitrary: st) (simp_all add: step_other_table)

lemma fold_cache_None:
  "map_of (cache (snd st)) ck = None \<Longrightarrow>
   map_of (cache (snd (fold (removeAll_step t) ks st))) ck = None"
  by (induction ks arbitrary: st) (simp_all add: step_cache_None)

lemma fold_table_None:
  "map_of (get_table t (snd st)) k = None \<Longrightarrow>
   map_of (get_table t (snd (fold (removeAll_step t) ks st))) k = None"
  by (induction ks arbitrary: st) (simp_all add: step_table_None)

lemma fold_meta_kept:
  "map_of (get_table t (snd st)) k = Some (Env a) \<Longrightarrow> env_at (snd st) a = Some env \<Longrightarrow>
   meta env = Some True \<Longrightarrow>
   map_of (get_table t (snd (fold (removeAll_step t) ks st))) k = Some (Env a)"
  by (induction ks arbitrary: st) (simp_all add: step_meta_kept)

lemma fold_regex_kept:
  "keeps_no_position (fst st) \<Longrightarrow> fst (fold (removeAll_step t) ks st) = fst st"
  by (induction ks arbitrary: st) (simp_all add: step_regex_kept)

lemma fold_removes:
  "k \<in> set ks \<Longrightarrow> map_of (get_table t (snd st)) k = Some (Env a) \<Longrightarrow>
   env_at (snd st) a = Some env \<Longrightarrow> meta env \<noteq> Some True \<Longrightarrow>
   keeps_no_position (fst st) \<Longrightarrow> pattern_matches (fst st) k \<Longrightarrow>
   map_of (get_table t (snd (fold (removeAll_step t) ks st))) k = None \<and>
   map_of (cache (snd (fold (removeAll_step t) ks st))) (cacheKey env) = None"
proof (induction ks arbitrary: st)
  case Nil
  then show ?case by simp
next
  case (Cons x ks)
  show ?case
  proof (cases "x = k")
    case True
    from step_removes [OF Cons.prems(2-6)]
    have "map_of (get_table t (snd (removeAll_step t k st))) k = None"
      and "map_of (cache (snd (removeAll_step t k st))) (cacheKey env) = None"
      by simp_all
    with True show ?thesis
      by (simp add: fold_table_None fold_cache_None)
  next
    case False
    with Cons.prems have "k \<in> set ks" by simp
    moreover from False Cons.prems(2)
    have "map_of (get_table t (snd (removeAll_step t x st))) k = Some (Env a)"
      by (simp add: step_table_other_key)
    moreover from Cons.prems(3) have "env_at (snd (removeAll_step t x st)) a = Some env"
      by simp
    ultimately show ?thesis
      using Cons.IH [of "removeAll_step t x st"] Cons.prems(4,5,6)
      by (simp add: step_regex_kept)
  qed
qed

lemma removeAll_store [simp]: "store (snd (private_removeAllSchemas t regex ajv)) = store ajv"
  by (simp add: private_removeAllSchemas_def)

lemma removeAll_env_at [simp]:
  "env_at (snd (private_removeAllSchemas t regex ajv)) a = env_at ajv a"
  by (simp add: env_at_def)

lemma removeAll_other_table:
  "t' \<noteq> t \<Longrightarrow> get_table t' (snd (private_removeAllSchemas t regex ajv)) = get_table t' ajv"
  by (simp add: private_removeAllSchemas_def fold_other_table)

lemma removeAll_cache_None:
  "map_of (cache ajv) ck = None \<Longrightarrow>
   map_of (cache (snd (private_removeAllSchemas t regex ajv))) ck = None"
  by (simp add: private_removeAllSchemas_def fold_cache_None)

lemma removeAll_regex_kept:
  "keeps_no_position regex \<Longrightarrow> fst (private_removeAllSchemas t regex ajv) = regex"
  by (simp add: private_removeAllSchemas_def fold_regex_kept)

lemma removeAll_meta_kept:
  "map_of (get_table t ajv) k = Some (Env a) \<Longrightarrow> env_at ajv a = Some env \<Longrightarrow> meta env = Some True \<Longrightarrow>
   map_of (get_table t (snd (private_removeAllSchemas t regex ajv))) k = Some (Env a)"
  by (simp add: private_removeAllSchemas_def fold_meta_kept)

lemma removeAll_removes:
  assumes "map_of (get_table t ajv) k = Some (Env a)" "env_at ajv a = Some env"
    "meta env \<noteq> Some True" "keeps_no_position regex" "pattern_matches regex k"
  shows "map_of (get_table t (snd (private_removeAllSchemas t regex ajv))) k = None \<and>
         map_of (cache (snd (private_removeAllSchemas t regex ajv))) (cacheKey env) = None"
proof -
  from assms(1) have "k \<in> set (map fst (get_table t ajv))"
    by (metis map_of_eq_None_iff option.distinct(1) set_map)
  from fold_removes [OF this, of t "(regex, ajv)" a env] assms show ?thesis
    by (simp add: private_removeAllSchemas_def)
qed

lemma bulk_removed_eq:
  "bulk_removed regex ajv =
     snd (private_removeAllSchemas Refs (fst (private_removeAllSchemas Schemas regex ajv))
            (snd (private_removeAllSchemas Schemas regex ajv)))"
  by (simp add: bulk_removed_def split: prod.splits)

lemma bulk_store [simp]: "store (bulk_removed regex ajv) = store ajv"
  by (simp add: bulk_removed_eq)

lemma bulk_meta_kept:
  assumes "map_of (get_table t ajv) k = Some (Env a)" "env_at ajv a = Some env" "meta env = Some True"
  shows "map_of (get_table t (bulk_removed regex ajv)) k = Some (Env a)"
proof (cases t)
  case Schemas
  with assms show ?thesis
    using removeAll_meta_kept [of Schemas ajv k a env regex]
    by (simp add: bulk_removed_eq removeAll_other_table [of Schemas Refs, simplified])
next
  case Refs
  let ?p = "private_removeAllSchemas Schemas regex ajv"
  from Refs assms have "map_of (get_table Refs (snd ?p)) k = Some (Env a)"
    by (simp add: removeAll_other_table [of Refs Schemas, simplified])
  from removeAll_meta_kept [OF this, of env "fst ?p"] assms Refs show ?thesis
    by (simp add: bulk_removed_eq)
qed

lemma bulk_removes:
  assumes "map_of (get_table t ajv) k = Some (Env a)" "env_at ajv a = Some env"
    "meta env \<noteq> Some True" "keeps_no_position regex" "pattern_matches regex k"
  shows "map_of (get_table t (bulk_removed regex ajv)) k = None \<and>
         map_of (cache (bulk_removed regex ajv)) (cacheKey env) = None"
proof (cases t)
  case Schemas
  with assms show ?thesis
    using removeAll_removes [of Schemas ajv k a env regex]
    by (simp add: bulk_removed_eq removeAll_other_table [of Schemas Refs, simplified]
        removeAll_cache_None)
next
  case Refs
  let ?p = "private_removeAllSchemas Schemas regex ajv"
  from Refs assms have "map_of (get_table Refs (snd ?p)) k = Some (Env a)"
    by (simp add: removeAll_other_table [of Refs Schemas, simplified])
  from removeAll_removes [OF this, of env "fst ?p"] assms Refs show ?thesis
    by (simp add: bulk_removed_eq removeAll_regex_kept)
qed

lemma removeSchema_bulk_eq:
  "removeSchema c (bulk_arg regex) ajv =
     Inr (case regex of None \<Rightarrow> cache_clear (bulk_removed None ajv) | Some r \<Rightarrow> bulk_removed regex ajv)"
proof (cases regex)
  case None
  have "fst (private_removeAllSchemas Schemas None ajv) = None"
    by (simp add: removeAll_regex_kept keeps_no_position_def)
  with None show ?thesis
    by (simp add: bulk_arg_def bulk_removed_eq split: prod.splits)
next
  case (Some r)
  then show ?thesis
    by (simp add: bulk_arg_def bulk_removed_eq split: prod.splits)
qed

text \<open>
  What the code does keep of the claim below. Bulk removal, that is \<^verbatim>\<open>removeSchema()\<close> and
  \<^verbatim>\<open>removeSchema(regex)\<close> for any expression, returns without an error and leaves the
  environments themselves as they are, and every entry of \<^verbatim>\<open>schemas\<close> and of \<^verbatim>\<open>refs\<close>
  whose value is an environment marked meta is still there afterwards, under the same
  key and with the same environment. When there is no expression, or the expression has
  neither the flag \<^verbatim>\<open>g\<close> nor the flag \<^verbatim>\<open>y\<close>, every entry whose value is an environment not
  marked meta and whose key matches is gone, and the cache has no line under the cache
  key of that environment.
\<close>

lemma removeSchema_bulk_general:
  "\<exists>ajv'. removeSchema c (bulk_arg regex) ajv = Inr ajv' \<and> store ajv' = store ajv \<and>
     (\<forall>t k a env. map_of (get_table t ajv) k = Some (Env a) \<longrightarrow> env_at ajv a = Some env \<longrightarrow>
        (if meta env = Some True then map_of (get_table t ajv') k = Some (Env a)
         else keeps_no_position regex \<longrightarrow> pattern_matches regex k \<longrightarrow>
              map_of (get_table t ajv') k = None \<and> cache_get ajv' (cacheKey env) = None))"
proof (cases regex)
  case None
  have t: "get_table t (cache_clear x) = get_table t x" for t x
    by (cases t) (simp_all add: cache_clear_def)
  have s: "store (cache_clear x) = store x" "cache_get (cache_clear x) ck = None" for x ck
    by (simp_all add: cache_clear_def cache_get_def)
  show ?thesis
    unfolding removeSchema_bulk_eq None
    using bulk_meta_kept [of _ ajv _ _ _ None] bulk_removes [of _ ajv _ _ _ None]
    by (auto simp: t s)
next
  case (Some r)
  show ?thesis
    unfolding removeSchema_bulk_eq Some
    using bulk_meta_kept [of _ ajv _ _ _ "Some r"] bulk_removes [of _ ajv _ _ _ "Some r"]
    by (auto simp: cache_get_def)
qed

text \<open>
  Claim C6, on an expression with the flag \<^verbatim>\<open>g\<close>. The tables hold a meta-schema under
  \<open>meta\<close> and two schemas that are not meta-schemas under \<open>user\<close> and \<open>user2\<close>, and the
  pattern \<open>user\<close> is found in both of these keys. \<^verbatim>\<open>removeSchema(/user/)\<close> removes both.
  \<^verbatim>\<open>removeSchema(/user/g)\<close> keeps the meta-schema and removes \<open>user\<close>, and leaves \<open>user2\<close> in
  \<^verbatim>\<open>schemas\<close>, in \<^verbatim>\<open>refs\<close> and in the cache: the call of \<^verbatim>\<open>test\<close> that matched \<open>user\<close> left
  \<^verbatim>\<open>lastIndex\<close> at 4, and the next call searches \<open>user2\<close> from there.
\<close>

theorem removeSchema_global_regexp_keeps_match:
  "pattern_matches (Some user_regexp_global) ''user'' \<and>
   pattern_matches (Some user_regexp_global) ''user2'' \<and>
   map_of (schemas example_registered) ''user2'' = Some (Env 2) \<and>
   map_option meta (env_at example_registered 2) = Some None \<and>
   (case removeSchema example_collab (ByRegExp user_regexp) example_registered of
      Inl e \<Rightarrow> False
    | Inr ajv' \<Rightarrow>
        map_of (schemas ajv') ''meta'' = Some (Env 0) \<and>
        map_of (schemas ajv') ''user'' = None \<and>
        map_of (schemas ajv') ''user2'' = None \<and>
        map_of (refs ajv') ''user2'' = None \<and>
        cache_get ajv' ''{\"$id\":\"user2\"}'' = None) \<and>
   (case removeSchema example_collab (ByRegExp user_regexp_global) example_registered of
      Inl e \<Rightarrow> False
    | Inr ajv' \<Rightarrow>
        map_of (schemas ajv') ''meta'' = Some (Env 0) \<and>
        map_of (schemas ajv') ''user'' = None \<and>
        map_of (schemas ajv') ''user2'' = Some (Env 2) \<and>
        map_of (refs ajv') ''user2'' = Some (Env 2) \<and>
        cache_get ajv' ''{\"$id\":\"user2\"}'' = Some 2)"
  by code_simp

subsection \<open>The meta-schema with data references\<close>

lemma dataMetaSchema_step:
  assumes "dataMetaSchema R (p # ps) a st = Inr (a', st')"
  obtains x where "a < length st" and "dataMetaSchema R ps (length st) (st @ [x]) = Inr (a', st')"
  using assms
  by (auto simp: Let_def bindE_Inr_iff split: if_splits option.splits)

lemma dataMetaSchema_frame:
  "dataMetaSchema R ps a st = Inr (a', st') \<Longrightarrow> a < length st \<Longrightarrow>
   take (length st) st' = st \<and> a' < length st' \<and>
   (if ps = [] then a' = a \<and> st' = st else length st \<le> a')"
proof (induction ps arbitrary: a st)
  case Nil
  then show ?case by simp
next
  case (Cons p ps)
  from Cons.prems(1) obtain x where
    r: "dataMetaSchema R ps (length st) (st @ [x]) = Inr (a', st')"
    by (rule dataMetaSchema_step)
  from Cons.IH [OF r]
  have t: "take (Suc (length st)) st' = st @ [x]" and l: "a' < length st'"
    and c: "if ps = [] then a' = length st \<and> st' = st @ [x] else Suc (length st) \<le> a'"
    by (simp_all split: if_splits)
  have "take (length st) st' = take (length st) (take (Suc (length st)) st')"
    by simp
  also from t have "\<dots> = st" by simp
  finally have "take (length st) st' = st" .
  moreover from c have "length st \<le> a'" by (auto split: if_splits)
  ultimately show ?case using l by simp
qed

text \<open>
  Claim C7, as the code has it. When \<^verbatim>\<open>$dataMetaSchema\<close> returns, the meta-schema it was
  given is as it was before the call, and so is every object that existed before the
  call. For a list of pointers that is not empty the result is a new object, distinct from
  the argument and from every object that existed; for the empty list the loop body never
  runs and the result is the argument itself.
\<close>

theorem dataMetaSchema_fresh_copy:
  assumes "a < length st" "dataMetaSchema R ps a st = Inr (a', st')"
  shows "st' ! a = st ! a \<and> take (length st) st' = st \<and>
         (if ps = [] then a' = a \<and> st' = st
          else a' \<noteq> a \<and> length st \<le> a' \<and> a' < length st')"
proof -
  from dataMetaSchema_frame [OF assms(2,1)]
  have t: "take (length st) st' = st" and l: "a' < length st'"
    and c: "if ps = [] then a' = a \<and> st' = st else length st \<le> a'"
    by simp_all
  from assms(1) have "st' ! a = take (length st) st' ! a" by simp
  with t have "st' ! a = st ! a" by simp
  with t l c assms(1) show ?thesis by (auto split: if_splits)
qed

text \<open>
  The claim includes the empty list of pointers. There the method returns the very object
  it was given (the address 0 here), and allocates nothing.
\<close>

theorem dataMetaSchema_empty_counterexample:
  "dataMetaSchema example_all [] 0 [example_meta] = Inr (0, [example_meta])"
  by simp

lemma example_run:
  "dataMetaSchema example_all [''/properties''] 0 [example_meta] =
     Inr (1, [example_meta,
              JObj [(''$id'', JStr ''meta''),
                    (''properties'',
                       JObj [(''maximum'', schemaOrData (JObj [(''type'', JStr ''number'')])),
                             (''type'', JObj [(''type'', JStr ''string'')])])]])"
  by (simp add: example_meta_def example_all_def example_def_def bindE_def Let_def)

theorem dataMetaSchema_fresh_copy_witness:
  "\<exists>a' st'. dataMetaSchema example_all [''/properties''] 0 [example_meta] = Inr (a', st') \<and>
     a' \<noteq> 0 \<and> st' ! 0 = example_meta"
proof -
  have "(0::nat) < length [example_meta]" by simp
  from dataMetaSchema_fresh_copy [OF this example_run] example_run show ?thesis by simp
qed

subsection \<open>Properties with defaults\<close>

lemmas properties_defs =
  properties_code_def schemaProperties_def property_code_def hasDefault_def bindE_def Let_def
  validate_properties_def inject_defaults_def data_prop_def subschema_valid_def

text \<open>
  Claim C4. For the schema \<^verbatim>\<open>{properties: {x: {default: 5, type: "number"}}}\<close>: with
  \<^verbatim>\<open>useDefaults\<close> truthy and outside a composite rule the generator emits the application
  of the subschema of \<open>x\<close> with no condition around it, and validating \<^verbatim>\<open>{}\<close> returns
  true and leaves the data \<^verbatim>\<open>{x: 5}\<close>; the injected default is validated, since a default
  that is not a number makes the same run return false. With \<^verbatim>\<open>useDefaults\<close> falsy the
  application stands under the condition that the property is in the data, and
  validating \<^verbatim>\<open>{}\<close> returns true and leaves the data unchanged.
\<close>

theorem properties_with_defaults:
  assumes "js_truthy ud" "\<not> js_truthy ud'"
  shows
  "properties_code
     \<lparr>it_useDefaults = ud, it_ownProperties = own, it_compositeRule = False, it_allErrors = ae\<rparr>
     example_properties = Inr [ApplyPropertySchema ''x'', OkValid] \<and>
   validate_properties
     \<lparr>it_useDefaults = ud, it_ownProperties = own, it_compositeRule = False, it_allErrors = ae\<rparr>
     example_properties (JObj []) = Inr (True, JObj [(''x'', JNum 5)]) \<and>
   validate_properties
     \<lparr>it_useDefaults = ud, it_ownProperties = own, it_compositeRule = False, it_allErrors = ae\<rparr>
     (JObj [(''x'', JObj [(''default'', JStr ''five''), (''type'', JStr ''number'')])]) (JObj []) =
     Inr (False, JObj [(''x'', JStr ''five'')]) \<and>
   properties_code
     \<lparr>it_useDefaults = ud', it_ownProperties = own, it_compositeRule = cr, it_allErrors = ae\<rparr>
     example_properties =
     Inr [IfPropertyInData ''x'' own [ApplyPropertySchema ''x'']
            (if \<not> ae then [SetValidTrue] else []), OkValid] \<and>
   validate_properties
     \<lparr>it_useDefaults = ud', it_ownProperties = own, it_compositeRule = cr, it_allErrors = ae\<rparr>
     example_properties (JObj []) = Inr (True, JObj [])"
  using assms by (simp add: properties_defs example_properties_def)

theorem properties_with_defaults_witness:
  "js_truthy (JBool True) \<and> \<not> js_truthy JUndefined \<and>
   validate_properties
     \<lparr>it_useDefaults = JBool True, it_ownProperties = False, it_compositeRule = False,
      it_allErrors = False\<rparr>
     example_properties (JObj []) = Inr (True, JObj [(''x'', JNum 5)]) \<and>
   validate_properties
     \<lparr>it_useDefaults = JUndefined, it_ownProperties = False, it_compositeRule = False,
      it_allErrors = False\<rparr>
     example_properties (JObj []) = Inr (True, JObj [])"
  using properties_with_defaults [of "JBool True" JUndefined False False False]
  by simp

subsection \<open>One fetch per ref\<close>

lemma load_invI:
  assumes "\<And>p. p < length (fetches s) \<Longrightarrow> \<not> f_finished (fetches s ! p) \<Longrightarrow>
             map_of (loading s) (f_ref (fetches s ! p)) = Some p"
    and "\<And>p. p < length (fetches s) \<Longrightarrow> f_state (fetches s ! p) = Pending \<Longrightarrow>
             \<not> f_finished (fetches s ! p)"
    and "\<And>r p. map_of (loading s) r = Some p \<Longrightarrow>
             p < length (fetches s) \<and> f_ref (fetches s ! p) = r \<and> \<not> f_finished (fetches s ! p)"
  shows "load_inv s"
  using assms unfolding load_inv_def by blast

lemma load_inv_owner:
  "load_inv s \<Longrightarrow> p < length (fetches s) \<Longrightarrow> \<not> f_finished (fetches s ! p) \<Longrightarrow>
   map_of (loading s) (f_ref (fetches s ! p)) = Some p"
  unfolding load_inv_def by blast

lemma load_inv_pending:
  "load_inv s \<Longrightarrow> p < length (fetches s) \<Longrightarrow> f_state (fetches s ! p) = Pending \<Longrightarrow>
   \<not> f_finished (fetches s ! p)"
  unfolding load_inv_def by blast

lemma load_inv_entry:
  "load_inv s \<Longrightarrow> map_of (loading s) r = Some p \<Longrightarrow>
   p < length (fetches s) \<and> f_ref (fetches s ! p) = r \<and> \<not> f_finished (fetches s ! p)"
  unfolding load_inv_def by blast

lemma load_inv_initial: "load_inv initial_load_state"
  by (simp add: load_inv_def initial_load_state_def)

lemma request_hit: "map_of (loading s) r = Some p \<Longrightarrow> request r s = (p, s)"
  by (simp add: request_def)

lemma request_miss:
  "map_of (loading s) r = None \<Longrightarrow>
   request r s = (length (fetches s),
     s\<lparr>fetches := fetches s @ [\<lparr>f_ref = r, f_state = Pending, f_finished = False\<rparr>],
       loading := AList.update r (length (fetches s)) (loading s)\<rparr>)"
  by (simp add: request_def)

lemma load_inv_request: 
  assumes inv: "load_inv s"
  shows "load_inv (snd (request r s))"
proof (cases "map_of (loading s) r")
  case (Some p)
  with inv show ?thesis by (simp add: request_hit)
next
  case None
  let ?n = "length (fetches s)"
  let ?s = "s\<lparr>fetches := fetches s @ [\<lparr>f_ref = r, f_state = Pending, f_finished = False\<rparr>],
       loading := AList.update r ?n (loading s)\<rparr>"
  have "load_inv ?s"
  proof (rule load_invI)
    fix p assume p: "p < length (fetches ?s)" and nf: "\<not> f_finished (fetches ?s ! p)"
    show "map_of (loading ?s) (f_ref (fetches ?s ! p)) = Some p"
    proof (cases "p < ?n")
      case True
      with nf have nf': "\<not> f_finished (fetches s ! p)" by (simp add: nth_append)
      from load_inv_owner [OF inv True nf'] None have "f_ref (fetches s ! p) \<noteq> r" by auto
      with load_inv_owner [OF inv True nf'] True show ?thesis
        by (simp add: nth_append update_conv')
    next
      case False
      with p have "p = ?n" by simp
      then show ?thesis by (simp add: update_conv')
    qed
  next
    fix p assume p: "p < length (fetches ?s)" and pe: "f_state (fetches ?s ! p) = Pending"
    show "\<not> f_finished (fetches ?s ! p)"
    proof (cases "p < ?n")
      case True
      with pe load_inv_pending [OF inv True] show ?thesis by (simp add: nth_append)
    next
      case False
      with p have "p = ?n" by simp
      then show ?thesis by simp
    qed
  next
    fix r' p assume m: "map_of (loading ?s) r' = Some p"
    show "p < length (fetches ?s) \<and> f_ref (fetches ?s ! p) = r' \<and> \<not> f_finished (fetches ?s ! p)"
    proof (cases "r' = r")
      case True
      with m have "p = ?n" by (simp add: update_conv')
      with True show ?thesis by simp
    next
      case False
      with m have "map_of (loading s) r' = Some p" by (simp add: update_conv')
      from load_inv_entry [OF inv this] show ?thesis by (simp add: nth_append)
    qed
  qed
  with None show ?thesis by (simp add: request_miss)
qed

lemma load_inv_settle:
  assumes inv: "load_inv s"
  shows "load_inv (settle p ok s)"
proof (cases "p < length (fetches s) \<and> f_state (fetches s ! p) = Pending")
  case False
  then have "settle p ok s = s" unfolding settle_def by (simp only: if_False)
  with inv show ?thesis by simp
next
  case True
  let ?s = "s\<lparr>fetches := (fetches s)[p := (fetches s ! p)\<lparr>f_state := (if ok then Fulfilled else Rejected)\<rparr>]\<rparr>"
  have "load_inv ?s"
  proof (rule load_invI)
    fix q assume "q < length (fetches ?s)" "\<not> f_finished (fetches ?s ! q)"
    then show "map_of (loading ?s) (f_ref (fetches ?s ! q)) = Some q"
      using load_inv_owner [OF inv, of q] by (cases "q = p") (simp_all add: nth_list_update)
  next
    fix q assume "q < length (fetches ?s)" "f_state (fetches ?s ! q) = Pending"
    then show "\<not> f_finished (fetches ?s ! q)"
      using load_inv_pending [OF inv, of q]
      by (cases "q = p") (simp_all add: nth_list_update split: if_splits)
  next
    fix r q assume "map_of (loading ?s) r = Some q"
    then show "q < length (fetches ?s) \<and> f_ref (fetches ?s ! q) = r \<and> \<not> f_finished (fetches ?s ! q)"
      using load_inv_entry [OF inv, of r q] by (cases "q = p") (simp_all add: nth_list_update)
  qed
  moreover from True have "settle p ok s = ?s" by (simp add: settle_def)
  ultimately show ?thesis by simp
qed

lemma load_inv_resume:
  assumes inv: "load_inv s"
  shows "load_inv (resume p s)"
proof (cases "p < length (fetches s) \<and> f_state (fetches s ! p) \<noteq> Pending \<and> \<not> f_finished (fetches s ! p)")
  case False
  then have "resume p s = s" unfolding resume_def by (simp only: if_False)
  with inv show ?thesis by simp
next
  case True
  let ?r = "f_ref (fetches s ! p)"
  let ?s = "s\<lparr>fetches := (fetches s)[p := (fetches s ! p)\<lparr>f_finished := True\<rparr>],
             loading := AList.delete ?r (loading s)\<rparr>"
  from True have pl: "p < length (fetches s)" and nf: "\<not> f_finished (fetches s ! p)" by simp_all
  from load_inv_owner [OF inv pl nf] have own: "map_of (loading s) ?r = Some p" .
  have "load_inv ?s"
  proof (rule load_invI)
    fix q assume q: "q < length (fetches ?s)" and qf: "\<not> f_finished (fetches ?s ! q)"
    then have qp: "q \<noteq> p" by (auto simp: nth_list_update)
    with q qf have q': "q < length (fetches s)" "\<not> f_finished (fetches s ! q)"
      by (simp_all add: nth_list_update)
    from load_inv_owner [OF inv q'] have o: "map_of (loading s) (f_ref (fetches s ! q)) = Some q" .
    with own qp have "f_ref (fetches s ! q) \<noteq> ?r" by auto
    with o qp q' show "map_of (loading ?s) (f_ref (fetches ?s ! q)) = Some q"
      by (simp add: nth_list_update delete_conv')
  next
    fix q assume "q < length (fetches ?s)" "f_state (fetches ?s ! q) = Pending"
    then show "\<not> f_finished (fetches ?s ! q)"
      using load_inv_pending [OF inv, of q] True by (cases "q = p") (simp_all add: nth_list_update)
  next
    fix r q assume m: "map_of (loading ?s) r = Some q"
    then have rr: "r \<noteq> ?r" and m': "map_of (loading s) r = Some q"
      by (auto simp: delete_conv' split: if_splits)
    from load_inv_entry [OF inv m'] rr have "q \<noteq> p" by auto
    with load_inv_entry [OF inv m']
    show "q < length (fetches ?s) \<and> f_ref (fetches ?s ! q) = r \<and> \<not> f_finished (fetches ?s ! q)"
      by (simp add: nth_list_update)
  qed
  moreover from True have "resume p s = ?s" by (simp add: resume_def)
  ultimately show ?thesis by simp
qed

lemma load_inv_step: "load_inv s \<Longrightarrow> load_inv (load_step s e)"
  by (cases e) (simp_all add: load_inv_request load_inv_settle load_inv_resume)

lemma load_inv_run: "load_inv s \<Longrightarrow> load_inv (load_run evs s)"
  unfolding load_run_def
  by (induction evs arbitrary: s) (simp_all add: load_inv_step)

lemma load_inv_reachable: "load_inv (load_run evs initial_load_state)"
  by (simp add: load_inv_run load_inv_initial)

lemma in_flight_unique:
  assumes "load_inv s" "in_flight s r p" "in_flight s r q"
  shows "p = q"
proof -
  from assms(2) have "p < length (fetches s)" "f_ref (fetches s ! p) = r" "\<not> f_finished (fetches s ! p)"
    using load_inv_pending [OF assms(1), of p] by (simp_all add: in_flight_def)
  from load_inv_owner [OF assms(1) this(1,3)] this(2) have "map_of (loading s) r = Some p" by simp
  moreover
  from assms(3) have "q < length (fetches s)" "f_ref (fetches s ! q) = r" "\<not> f_finished (fetches s ! q)"
    using load_inv_pending [OF assms(1), of q] by (simp_all add: in_flight_def)
  from load_inv_owner [OF assms(1) this(1,3)] this(2) have "map_of (loading s) r = Some q" by simp
  ultimately show ?thesis by simp
qed

lemma calls_request_hit:
  "map_of (loading s) r' = Some p \<Longrightarrow> loadSchema_calls (snd (request r' s)) r = loadSchema_calls s r"
  by (simp add: request_hit)

lemma calls_request_miss:
  "map_of (loading s) r' = None \<Longrightarrow>
   loadSchema_calls (snd (request r' s)) r = loadSchema_calls s r + (if r' = r then 1 else 0)"
  by (simp add: request_miss loadSchema_calls_def)

lemma map_f_ref_update:
  "p < length fs \<Longrightarrow> f_ref x = f_ref (fs ! p) \<Longrightarrow> map f_ref (fs[p := x]) = map f_ref fs"
  by (simp add: list_eq_iff_nth_eq nth_list_update)

lemma calls_settle: "loadSchema_calls (settle p ok s) r = loadSchema_calls s r"
  by (simp add: settle_def loadSchema_calls_def map_f_ref_update)

lemma calls_resume: "loadSchema_calls (resume p s) r = loadSchema_calls s r"
  by (simp add: resume_def loadSchema_calls_def map_f_ref_update)

lemma loading_request_other:
  "map_of (loading s) r = Some p0 \<Longrightarrow> map_of (loading (snd (request r' s))) r = Some p0"
  by (cases "map_of (loading s) r'") (auto simp: request_miss request_hit update_conv')

lemma loading_settle [simp]: "loading (settle p ok s) = loading s"
  by (simp add: settle_def)

lemma loading_resume_other:
  assumes inv: "load_inv s" and l: "map_of (loading s) r = Some p0" and q: "q \<noteq> p0"
  shows "map_of (loading (resume q s)) r = Some p0"
proof (cases "q < length (fetches s) \<and> f_state (fetches s ! q) \<noteq> Pending \<and> \<not> f_finished (fetches s ! q)")
  case False
  then have "resume q s = s" unfolding resume_def by (simp only: if_False)
  with l show ?thesis by simp
next
  case True
  then have "map_of (loading s) (f_ref (fetches s ! q)) = Some q"
    using load_inv_owner [OF inv, of q] by simp
  with l q have "f_ref (fetches s ! q) \<noteq> r" by auto
  with True l show ?thesis by (simp add: resume_def delete_conv')
qed

lemma pending_entry_step:
  assumes inv: "load_inv s" and l: "map_of (loading s) r = Some p0" and e: "e \<noteq> Resume p0"
  shows "map_of (loading (load_step s e)) r = Some p0 \<and>
         loadSchema_calls (load_step s e) r = loadSchema_calls s r"
proof (cases e)
  case (Request r')
  show ?thesis
  proof (cases "map_of (loading s) r'")
    case None
    with l have "r' \<noteq> r" by auto
    with None l Request show ?thesis
      by (simp add: calls_request_miss loading_request_other)
  next
    case (Some p)
    with l Request show ?thesis by (simp add: request_hit)
  qed
next
  case (Settle p ok)
  with l show ?thesis by (simp add: calls_settle)
next
  case (Resume q)
  with e have "q \<noteq> p0" by simp
  from loading_resume_other [OF inv l this] Resume show ?thesis
    by (simp add: calls_resume)
qed

lemma pending_entry_run:
  "load_inv s \<Longrightarrow> map_of (loading s) r = Some p0 \<Longrightarrow> Resume p0 \<notin> set evs \<Longrightarrow>
   map_of (loading (load_run evs s)) r = Some p0 \<and>
   loadSchema_calls (load_run evs s) r = loadSchema_calls s r"
proof (induction evs arbitrary: s)
  case Nil
  then show ?case by (simp add: load_run_def)
next
  case (Cons e evs)
  from Cons.prems have e: "e \<noteq> Resume p0" and n: "Resume p0 \<notin> set evs" by auto
  from pending_entry_step [OF Cons.prems(1,2) e]
  have l: "map_of (loading (load_step s e)) r = Some p0"
    and c: "loadSchema_calls (load_step s e) r = loadSchema_calls s r" by simp_all
  from Cons.IH [OF load_inv_step [OF Cons.prems(1)] l n] c show ?case
    by (simp add: load_run_def)
qed

lemma exactly_once:
  assumes inv: "load_inv s" and l: "map_of (loading s) r = None"
    and n: "Resume (length (fetches s)) \<notin> set evs"
  shows "loadSchema_calls (load_run (Request r # evs) s) r = loadSchema_calls s r + 1"
proof -
  let ?s = "snd (request r s)"
  from l have "map_of (loading ?s) r = Some (length (fetches s))"
    by (simp add: request_miss update_conv')
  from pending_entry_run [OF load_inv_request [OF inv] this n]
  have "loadSchema_calls (load_run evs ?s) r = loadSchema_calls ?s r" by simp
  with l show ?thesis
    by (simp add: load_run_def calls_request_miss)
qed

lemma entry_removed:
  assumes inv: "load_inv s" and f: "in_flight s r p"
  shows "map_of (loading (resume p (settle p ok s))) r = None"
proof -
  from f have p: "p < length (fetches s)" "f_ref (fetches s ! p) = r" "f_state (fetches s ! p) = Pending"
    by (simp_all add: in_flight_def)
  with load_inv_pending [OF inv] have "\<not> f_finished (fetches s ! p)" by simp
  with p show ?thesis
    by (simp add: settle_def resume_def delete_conv')
qed

lemma fetched_again:
  assumes inv: "load_inv s" and f: "in_flight s r p"
  shows "loadSchema_calls (snd (request r (resume p (settle p ok s)))) r = loadSchema_calls s r + 1"
  using calls_request_miss [OF entry_removed [OF inv f], of ok r]
  by (simp add: calls_settle calls_resume)

text \<open>
  Claim C5 as the spec has it, that concurrent calls which need the same missing ref
  invoke \<^verbatim>\<open>loadSchema\<close> exactly once, fails. The entry of \<^verbatim>\<open>_loading\<close> is deleted by the
  \<^verbatim>\<open>finally\<close> block of \<^verbatim>\<open>_loadSchema\<close>, and the schema is added only later, by
  \<^verbatim>\<open>loadMissingSchema\<close>, after it has awaited the meta-schema of the fetched schema. A call
  that needs the ref in between finds neither an entry nor the schema: the ref \<open>b\<close> is
  requested, its fetch is fulfilled, the call that started it runs its \<^verbatim>\<open>finally\<close> block,
  \<open>b\<close> is requested again, and \<^verbatim>\<open>loadSchema(b)\<close> has been called twice.
\<close>

theorem loadSchema_twice_counterexample:
  "loadSchema_calls
     (load_run [Request ''b'', Settle 0 True, Resume 0, Request ''b''] initial_load_state) ''b'' = 2"
  by (simp add: load_run_def initial_load_state_def loadSchema_calls_def request_def settle_def
      resume_def)

text \<open>
  Claim C5, as the code has it. In every state that the calls of \<^verbatim>\<open>_loadSchema\<close>, the
  settling of promises and the resumption of suspended calls can reach, in any
  interleaving, and for every ref \<open>r\<close>: at most one fetch for \<open>r\<close> is in flight; a
  requester that finds a promise in \<^verbatim>\<open>_loading[r]\<close> gets that promise and \<^verbatim>\<open>loadSchema\<close> is
  not called; from a state with no entry for \<open>r\<close>, a request for \<open>r\<close> followed by any
  further requests, for \<open>r\<close> or other refs, and any other events, as long as the call that
  started the fetch has not run its \<^verbatim>\<open>finally\<close> block, calls \<^verbatim>\<open>loadSchema(r)\<close> exactly once;
  when the fetch in flight settles, fulfilled or rejected, the resumed call removes the
  entry of \<open>r\<close>; and a request for \<open>r\<close> that comes after the removal calls
  \<^verbatim>\<open>loadSchema(r)\<close> once more.
\<close>

theorem loadSchema_single_flight:
  "let s = load_run evs initial_load_state in
     (\<forall>p q. in_flight s r p \<longrightarrow> in_flight s r q \<longrightarrow> p = q) \<and>
     (\<forall>p. map_of (loading s) r = Some p \<longrightarrow> request r s = (p, s)) \<and>
     (map_of (loading s) r = None \<longrightarrow>
        (\<forall>evs'. Resume (length (fetches s)) \<notin> set evs' \<longrightarrow>
           loadSchema_calls (load_run (Request r # evs') s) r = loadSchema_calls s r + 1)) \<and>
     (\<forall>p ok. in_flight s r p \<longrightarrow> map_of (loading (resume p (settle p ok s))) r = None) \<and>
     (\<forall>p ok. in_flight s r p \<longrightarrow>
        loadSchema_calls (snd (request r (resume p (settle p ok s)))) r = loadSchema_calls s r + 1)"
  unfolding Let_def
  using in_flight_unique [OF load_inv_reachable] request_hit exactly_once [OF load_inv_reachable]
    entry_removed [OF load_inv_reachable] fetched_again [OF load_inv_reachable]
  by blast

theorem loadSchema_single_flight_witness:
  "loadSchema_calls
     (load_run [Request ''b'', Request ''b'', Settle 0 True, Request ''b''] initial_load_state) ''b'' = 1 \<and>
   in_flight (load_run [Request ''b''] initial_load_state) ''b'' 0 \<and>
   map_of (loading (resume 0 (settle 0 False (load_run [Request ''b''] initial_load_state)))) ''b'' = None"
proof -
  let ?s0 = "load_run [] initial_load_state"
  have s0: "?s0 = initial_load_state" by (simp add: load_run_def)
  have a: "map_of (loading ?s0) ''b'' = None"
    by (simp add: load_run_def initial_load_state_def)
  have "\<forall>evs'. Resume (length (fetches ?s0)) \<notin> set evs' \<longrightarrow>
          loadSchema_calls (load_run (Request ''b'' # evs') ?s0) ''b'' = loadSchema_calls ?s0 ''b'' + 1"
    using loadSchema_single_flight [of "[]" "''b''"] a unfolding Let_def by blast
  then have "Resume (length (fetches ?s0)) \<notin> set [Request ''b'', Settle 0 True, Request ''b''] \<longrightarrow>
          loadSchema_calls (load_run (Request ''b'' # [Request ''b'', Settle 0 True, Request ''b'']) ?s0) ''b'' =
          loadSchema_calls ?s0 ''b'' + 1"
    by (rule spec)
  then have one: "loadSchema_calls
     (load_run [Request ''b'', Request ''b'', Settle 0 True, Request ''b''] initial_load_state) ''b'' = 1"
    by (simp add: load_run_def initial_load_state_def loadSchema_calls_def)
  have f: "in_flight (load_run [Request ''b''] initial_load_state) ''b'' 0"
    by (simp add: in_flight_def load_run_def request_def initial_load_state_def)
  have "\<forall>p ok. in_flight (load_run [Request ''b''] initial_load_state) ''b'' p \<longrightarrow>
      map_of (loading (resume p (settle p ok (load_run [Request ''b''] initial_load_state)))) ''b'' = None"
    using loadSchema_single_flight [of "[Request ''b'']" "''b''"] unfolding Let_def by blast
  with f have "map_of (loading (resume 0 (settle 0 False (load_run [Request ''b''] initial_load_state)))) ''b'' = None"
    by blast
  with one f show ?thesis by simp
qed

subsection \<open>errorsText\<close>

lemma foldl_append_separator:
  "foldl (\<lambda>text msg. text @ msg @ sep) acc ms = acc @ concat (map (\<lambda>m. m @ sep) ms)"
  by (induction ms arbitrary: acc) simp_all

text \<open>
  Claim C10. For a list of two or more errors, \<^verbatim>\<open>errorsText\<close> returns
  \<open>m1 @ m2 @ separator @ m3 @ separator @ ... @ mn @ separator\<close> with
  \<open>mi = dataVar @ dataPath ei @ '' '' @ message ei\<close>: the first message is the initial
  accumulator of the reduction, so no separator stands between the first and the second
  message, and every later message brings a separator after it, the last one included.
\<close>

theorem errorsText_two_or_more:
  "errorsText this_errors (Val (e1 # e2 # es)) topts =
     (let sep = (case separator topts of None \<Rightarrow> '', '' | Some s \<Rightarrow> s);
          dv = (case dataVar topts of None \<Rightarrow> ''data'' | Some s \<Rightarrow> s)
      in error_line dv e1 @ error_line dv e2 @ sep @
         concat (map (\<lambda>e. error_line dv e @ sep) es))"
  by (simp add: errorsText_def foldl_append_separator comp_def Let_def)

theorem errorsText_two_or_more_witness:
  "errorsText Null
     (Val [\<lparr>keyword = ''type'', dataPath = ''.x'', schemaPath = ''#/type'', message = Some ''a''\<rparr>,
           \<lparr>keyword = ''type'', dataPath = ''.y'', schemaPath = ''#/type'', message = Some ''b''\<rparr>,
           \<lparr>keyword = ''type'', dataPath = ''.z'', schemaPath = ''#/type'', message = None\<rparr>])
     \<lparr>separator = Some ''; '', dataVar = None\<rparr> =
   ''data.x adata.y b; data.z undefined; ''"
  using errorsText_two_or_more [of Null
     "\<lparr>keyword = ''type'', dataPath = ''.x'', schemaPath = ''#/type'', message = Some ''a''\<rparr>"
     "\<lparr>keyword = ''type'', dataPath = ''.y'', schemaPath = ''#/type'', message = Some ''b''\<rparr>"
     "[\<lparr>keyword = ''type'', dataPath = ''.z'', schemaPath = ''#/type'', message = None\<rparr>]"
     "\<lparr>separator = Some ''; '', dataVar = None\<rparr>"]
  by (simp add: error_line_def template_string_def)

end
